theory Spec2Isabelle
  imports Complex_Main "HOL-Library.Sublist"
begin

section \<open>Strings as the Python code uses them\<close>

text \<open>
  Python strings are modelled as HOL strings (lists of characters); the text handled by
  the plugin (paths and the output of the command line clients) is taken to be ASCII.
  The operations below are the library functions the source calls, with the behaviour
  the Python documentation gives them.
\<close>

abbreviation LF :: char where "LF \<equiv> CHR 0x0A"
abbreviation CR :: char where "CR \<equiv> CHR 0x0D"
abbreviation SP :: char where "SP \<equiv> CHR 0x20"
abbreviation BSLASH :: char where "BSLASH \<equiv> CHR 0x5C"
abbreviation SLASH :: char where "SLASH \<equiv> CHR 0x2F"
abbreviation COLON :: char where "COLON \<equiv> CHR 0x3A"
abbreviation DQUOTE :: char where "DQUOTE \<equiv> CHR 0x22"

text \<open>\<^verbatim>\<open>s.split(c)\<close> for a separator of one character: the pieces between the
  separators, \<^verbatim>\<open>['']\<close> for the empty string. The result is never empty; the last case
  of the inner \<open>case\<close> is there for totality only.\<close>

fun split_on :: "char \<Rightarrow> string \<Rightarrow> string list" where
  "split_on c [] = [[]]"
| "split_on c (x # xs) =
     (if x = c then [] # split_on c xs
      else (case split_on c xs of
              h # t \<Rightarrow> (x # h) # t
            | [] \<Rightarrow> [[x]]))"

text \<open>The characters \<^verbatim>\<open>str.strip()\<close> removes when it is called without an argument
  (the ASCII white space of \<^verbatim>\<open>str.isspace\<close>).\<close>

definition is_space :: "char \<Rightarrow> bool" where
  "is_space c = (c \<in> set [CHR 0x09, LF, CHR 0x0B, CHR 0x0C, CR,
                            CHR 0x1C, CHR 0x1D, CHR 0x1E, CHR 0x1F, SP])"

definition strip :: "string \<Rightarrow> string" where
  "strip s = dropWhile is_space (rev (dropWhile is_space (rev s)))"

text \<open>\<^verbatim>\<open>s.rstrip(chars)\<close>: drops the trailing characters that are in \<open>chars\<close>.\<close>

definition rstrip_chars :: "string \<Rightarrow> string \<Rightarrow> string" where
  "rstrip_chars chars s = rev (dropWhile (\<lambda>c. c \<in> set chars) (rev s))"

text \<open>\<^verbatim>\<open>s.replace('\r\n', '\n')\<close>: every carriage return followed by a line feed,
  scanning from the left, becomes a line feed.\<close>

fun crlf_to_lf :: "string \<Rightarrow> string" where
  "crlf_to_lf [] = []"
| "crlf_to_lf [x] = [x]"
| "crlf_to_lf (x # y # xs) =
     (if x = CR \<and> y = LF then LF # crlf_to_lf xs else x # crlf_to_lf (y # xs))"

text \<open>\<^verbatim>\<open>s.replace(old, new, 1)\<close>: only the leftmost occurrence of \<open>old\<close> is replaced.\<close>

fun replace_first :: "string \<Rightarrow> string \<Rightarrow> string \<Rightarrow> string" where
  "replace_first old new [] = (if old = [] then new else [])"
| "replace_first old new (x # xs) =
     (if prefix old (x # xs) then new @ drop (length old) (x # xs)
      else x # replace_first old new xs)"

text \<open>\<^verbatim>\<open>c.upper()\<close> on one ASCII character.\<close>

definition upper_char :: "char \<Rightarrow> char" where
  "upper_char c =
     (if (97::nat) \<le> of_char c \<and> of_char c \<le> (122::nat)
      then char_of (of_char c - (32::nat)) else c)"

definition upper :: "string \<Rightarrow> string" where
  "upper s = map upper_char s"

text \<open>\<^verbatim>\<open>re.search(re.escape(p) + '$', line) is not None\<close>. The escaped pattern matches
  \<open>p\<close> literally, and \<^verbatim>\<open>$\<close> (without the MULTILINE flag) matches at the end of the
  string and just before a line feed that ends the string. So the search succeeds exactly
  when \<open>line\<close> ends with \<open>p\<close>, or with \<open>p\<close> followed by one line feed.\<close>

definition re_search_escaped_eol :: "string \<Rightarrow> string \<Rightarrow> bool" where
  "re_search_escaped_eol p line = (suffix p line \<or> suffix (p @ [LF]) line)"

section \<open>Exceptions and the world outside the plugin\<close>

text \<open>Each exception carries its message (\<^verbatim>\<open>str(exception)\<close>). \<open>Exception\<close> is the
  plain \<^verbatim>\<open>Exception(...)\<close> that \<^verbatim>\<open>SVN.check_errors\<close> raises; \<open>OSError\<close> stands for
  what \<^verbatim>\<open>subprocess.Popen\<close>, reading or decoding the output may raise; the last two
  are what Python raises for a variable that was never bound and for an index out of
  range.\<close>

datatype exn =
    RepositoryNotFoundError string
  | NotFoundError string
  | Exception string
  | OSError string
  | UnboundLocalError string
  | IndexError string

fun exn_str :: "exn \<Rightarrow> string" where
  "exn_str (RepositoryNotFoundError m) = m"
| "exn_str (NotFoundError m) = m"
| "exn_str (Exception m) = m"
| "exn_str (OSError m) = m"
| "exn_str (UnboundLocalError m) = m"
| "exn_str (IndexError m) = m"

text \<open>One entry of \<^verbatim>\<open>file_status_cache\<close>: the dictionary with the keys
  \<^verbatim>\<open>'time'\<close> and \<^verbatim>\<open>'status'\<close>. The status is \<open>None\<close> when the check raised.\<close>

record entry =
  entry_time :: real
  entry_status :: "string option"

text \<open>The mutable state the modelled code touches: the module level cache, the dialogs
  shown with \<^verbatim>\<open>sublime.error_message\<close> (oldest first), the processes started with
  \<^verbatim>\<open>subprocess.Popen\<close> by \<^verbatim>\<open>NonInteractiveProcess.run\<close> (arguments and working
  directory, oldest first), and a counter of the calls of \<^verbatim>\<open>vcs.check_status\<close> made
  by \<^verbatim>\<open>process_status\<close>. Output printed with \<^verbatim>\<open>print\<close> is not modelled.\<close>

record world =
  file_status_cache :: "string \<rightharpoonup> entry"
  error_messages :: "string list"
  popen_calls :: "(string list \<times> string) list"
  status_checks :: nat

text \<open>The external command: for an argument list and a working directory, either the
  exception raised while starting it or reading from it, or the decoded text it wrote
  to its standard output and standard error.\<close>

type_synonym popen = "string list \<Rightarrow> string \<Rightarrow> exn + string"

text \<open>The last expression of \<^verbatim>\<open>NonInteractiveProcess.run\<close>:
  \<^verbatim>\<open>readout.replace('\r\n', '\n').rstrip(' \n\r')\<close>.\<close>

definition normalise_output :: "string \<Rightarrow> string" where
  "normalise_output readout = rstrip_chars [SP, LF, CR] (crlf_to_lf readout)"

text \<open>\<^verbatim>\<open>NonInteractiveProcess(args, cwd).run()\<close>.\<close>

definition NonInteractiveProcess_run ::
  "popen \<Rightarrow> string list \<Rightarrow> string \<Rightarrow> world \<Rightarrow> (exn + string) \<times> world" where
  "NonInteractiveProcess_run popen args cwd w =
     (let w' = w\<lparr>popen_calls := popen_calls w @ [(args, cwd)]\<rparr> in
      case popen args cwd of
        Inl e \<Rightarrow> (Inl e, w')
      | Inr readout \<Rightarrow> (Inr (normalise_output readout), w'))"

section \<open>The Subversion status parser\<close>

record SVN =
  svn_root_dir :: string
  svn_paths :: "string list"

definition too_old_message :: string where
  "too_old_message =
     [LF] @ ''This client is too old to work with the working copy.'' @ [LF] @
     ''You need to get a newer Subversion client, and point your sublime tortoise '' @
     [DQUOTE] @ ''svn_path'' @ [DQUOTE] @ '' setting to it's location.'' @ [LF] @ [LF] @
     ''For more details, see: http://subversion.apache.org/faq.html#working-copy-format-change'' @
     [LF]"

definition check_errors :: "string \<Rightarrow> exn + unit" where
  "check_errors error =
     (if error = ''E155021'' then Inl (Exception too_old_message) else Inr ())"

text \<open>The first loop of \<^verbatim>\<open>SVN.check_status\<close>, over the candidate binaries. \<open>result\<close>
  is the variable of that name: \<open>None\<close> while it is unbound. The loop ends at the first
  candidate whose first output line does not start with \<^verbatim>\<open>svn: E\<close>, or with the
  exception of \<open>check_errors\<close>, or when the candidates are used up.\<close>

fun svn_candidates ::
  "popen \<Rightarrow> SVN \<Rightarrow> string \<Rightarrow> string list \<Rightarrow> string list option \<Rightarrow> world
     \<Rightarrow> (exn + string list option) \<times> world" where
  "svn_candidates popen svn path [] result w = (Inr result, w)"
| "svn_candidates popen svn path (svn_path # rest) result w =
     (case NonInteractiveProcess_run popen [svn_path, ''status'', path] (svn_root_dir svn) w of
        (Inl e, w') \<Rightarrow> (Inl e, w')
      | (Inr out, w') \<Rightarrow>
          (let result' = split_on LF out in
           if length result' > 0 \<and> prefix ''svn: E'' (result' ! 0) then
             (case split_on COLON (result' ! 0) of
                _ # code # _ \<Rightarrow>
                  (case check_errors (strip code) of
                     Inl e \<Rightarrow> (Inl e, w')
                   | Inr _ \<Rightarrow> svn_candidates popen svn path rest (Some result') w')
              | _ \<Rightarrow> (Inl (IndexError ''list index out of range''), w'))
           else (Inr (Some result'), w')))"

text \<open>Whether a line of the listing is taken for the queried path. The loops of
  \<^verbatim>\<open>SVN.check_status\<close> and \<^verbatim>\<open>Git.check_status\<close> skip a line when
  \<^verbatim>\<open>self.root_dir != path and re.search(path_regex, line) is None\<close>, with
  \<^verbatim>\<open>path_regex\<close> built from \<^verbatim>\<open>path.replace(self.root_dir + '\\', '', 1)\<close>.\<close>

definition line_matches_path :: "string \<Rightarrow> string \<Rightarrow> string \<Rightarrow> bool" where
  "line_matches_path rootd path line =
     (\<not> (rootd \<noteq> path \<and>
         \<not> re_search_escaped_eol (replace_first (rootd @ [BSLASH]) [] path) line))"

text \<open>The second loop of \<^verbatim>\<open>SVN.check_status\<close>, over the lines of the output.\<close>

fun svn_scan :: "SVN \<Rightarrow> string \<Rightarrow> string list \<Rightarrow> string" where
  "svn_scan svn path [] = []"
| "svn_scan svn path (line # rest) =
     (if length line < 1 then svn_scan svn path rest
      else if \<not> line_matches_path (svn_root_dir svn) path line then svn_scan svn path rest
      else [line ! 0])"

definition SVN_check_status ::
  "popen \<Rightarrow> SVN \<Rightarrow> string \<Rightarrow> world \<Rightarrow> (exn + string) \<times> world" where
  "SVN_check_status popen svn path w =
     (case svn_candidates popen svn path (svn_paths svn) None w of
        (Inl e, w') \<Rightarrow> (Inl e, w')
      | (Inr None, w') \<Rightarrow>
          (Inl (UnboundLocalError ''local variable 'result' referenced before assignment''), w')
      | (Inr (Some result), w') \<Rightarrow> (Inr (svn_scan svn path result), w'))"

section \<open>The Git and Mercurial status parsers\<close>

record Git =
  git_path :: string
  git_root_dir :: string

text \<open>The loop of \<^verbatim>\<open>Git.check_status\<close> over the lines of \<^verbatim>\<open>git status --short\<close>.\<close>

fun git_scan :: "Git \<Rightarrow> string \<Rightarrow> string list \<Rightarrow> string" where
  "git_scan git path [] = []"
| "git_scan git path (line # rest) =
     (if length line < 2 then git_scan git path rest
      else if \<not> line_matches_path (git_root_dir git) path line then git_scan git path rest
      else upper [if line ! 0 \<noteq> SP then line ! 0 else line ! 1])"

definition Git_check_status ::
  "(string \<Rightarrow> bool) \<Rightarrow> popen \<Rightarrow> Git \<Rightarrow> string \<Rightarrow> world \<Rightarrow> (exn + string) \<times> world" where
  "Git_check_status isdir popen git path w =
     (if isdir path then
        (case NonInteractiveProcess_run popen [git_path git, ''log'', ''-1'', path]
                (git_root_dir git) w of
           (Inl e, w') \<Rightarrow> (Inl e, w')
         | (Inr out, w') \<Rightarrow>
             (let result = split_on LF (strip out) in
              if result = [[]] then (Inr ''?'', w') else (Inr [], w')))
      else
        (case NonInteractiveProcess_run popen [git_path git, ''status'', ''--short'']
                (git_root_dir git) w of
           (Inl e, w') \<Rightarrow> (Inl e, w')
         | (Inr out, w') \<Rightarrow> (Inr (git_scan git path (split_on LF (strip out))), w')))"

record Hg =
  hg_path :: string
  hg_root_dir :: string

text \<open>The loop of \<^verbatim>\<open>Hg.check_status\<close> over the lines of \<^verbatim>\<open>hg status path\<close>.\<close>

fun hg_scan :: "string list \<Rightarrow> string" where
  "hg_scan [] = []"
| "hg_scan (line # rest) =
     (if length line < 1 then hg_scan rest else upper [line ! 0])"

definition Hg_check_status ::
  "(string \<Rightarrow> bool) \<Rightarrow> popen \<Rightarrow> Hg \<Rightarrow> string \<Rightarrow> world \<Rightarrow> (exn + string) \<times> world" where
  "Hg_check_status isdir popen hg path w =
     (if isdir path then
        (case NonInteractiveProcess_run popen
                [hg_path hg, ''log'', ''-l'', ''1'', [DQUOTE] @ path @ [DQUOTE]]
                (hg_root_dir hg) w of
           (Inl e, w') \<Rightarrow> (Inl e, w')
         | (Inr out, w') \<Rightarrow>
             (let result = split_on LF (strip out) in
              if result = [[]] then (Inr ''?'', w') else (Inr [], w')))
      else
        (case NonInteractiveProcess_run popen [hg_path hg, ''status'', path]
                (hg_root_dir hg) w of
           (Inl e, w') \<Rightarrow> (Inl e, w')
         | (Inr out, w') \<Rightarrow> (Inr (hg_scan (split_on LF out)), w')))"

section \<open>The status cache\<close>

text \<open>The object whose \<^verbatim>\<open>check_status\<close> method \<^verbatim>\<open>process_status\<close> calls.\<close>

datatype checker = SVN_checker SVN | Git_checker Git | Hg_checker Hg

fun check_status ::
  "(string \<Rightarrow> bool) \<Rightarrow> popen \<Rightarrow> checker \<Rightarrow> string \<Rightarrow> world \<Rightarrow> (exn + string) \<times> world" where
  "check_status isdir popen (SVN_checker svn) path w = SVN_check_status popen svn path w"
| "check_status isdir popen (Git_checker git) path w = Git_check_status isdir popen git path w"
| "check_status isdir popen (Hg_checker hg) path w = Hg_check_status isdir popen hg path w"

text \<open>The settings of \<^verbatim>\<open>Tortoise.sublime-settings\<close> the modelled code reads. A path
  that is not set reads as \<open>None\<close>; \<open>cache_length\<close> is the configured number of
  seconds.\<close>

record settings =
  svn_tortoiseproc_path :: "string option"
  git_tortoiseproc_path :: "string option"
  hg_hgtk_path :: "string option"
  svn_path :: "string option"
  git_tgit_path :: "string option"
  cache_length :: real
  debug :: bool

text \<open>\<^verbatim>\<open>Tortoise.process_status(vcs, path)\<close>. The two readings of \<^verbatim>\<open>time.time()\<close>
  are inputs: \<open>now_lookup\<close> is the one compared with the cached entry, \<open>now_store\<close>
  the one taken after \<^verbatim>\<open>check_status\<close> returned, when the entry is written. The
  result is the returned status, \<open>None\<close> for Python's \<^verbatim>\<open>None\<close>.\<close>

definition process_status ::
  "(string \<Rightarrow> bool) \<Rightarrow> popen \<Rightarrow> settings \<Rightarrow> real \<Rightarrow> real \<Rightarrow> checker \<Rightarrow> string \<Rightarrow> world
     \<Rightarrow> string option \<times> world" where
  "process_status isdir popen st now_lookup now_store vcs path w =
     (if path \<in> dom (file_status_cache w) \<and>
         entry_time (the (file_status_cache w path)) > now_lookup - cache_length st
      then (entry_status (the (file_status_cache w path)), w)
      else
        (case check_status isdir popen vcs path (w\<lparr>status_checks := status_checks w + 1\<rparr>) of
           (r, w1) \<Rightarrow>
             (let (status, w2) =
                    (case r of
                       Inr s \<Rightarrow> (Some s, w1)
                     | Inl e \<Rightarrow> (None, w1\<lparr>error_messages := error_messages w1 @ [exn_str e]\<rparr>));
                  w3 = w2\<lparr>file_status_cache := (file_status_cache w2)
                          (path \<mapsto> \<lparr>entry_time = now_store + cache_length st,
                                     entry_status = status\<rparr>)\<rparr>
              in (status, w3))))"

section \<open>Paths and the root locator\<close>

text \<open>The plugin runs on Windows, so \<^verbatim>\<open>os.path\<close> is \<^verbatim>\<open>ntpath\<close>. Its functions are
  modelled for paths with an optional drive letter (no UNC paths): \<open>splitdrive\<close> cuts
  a leading \<^verbatim>\<open>X:\<close>, \<open>dirname\<close> is the head of \<^verbatim>\<open>ntpath.split\<close> (everything up to
  the last separator, without trailing separators unless it consists of separators only),
  and \<open>join\<close> is \<^verbatim>\<open>os.path.join\<close> for a second component that is relative and has no
  drive, as the marker and file names joined by the source are.\<close>

definition is_sep :: "char \<Rightarrow> bool" where
  "is_sep c = (c = BSLASH \<or> c = SLASH)"

definition splitdrive :: "string \<Rightarrow> string \<times> string" where
  "splitdrive p = (if length p \<ge> 2 \<and> p ! 1 = COLON then (take 2 p, drop 2 p) else ([], p))"

definition dirname :: "string \<Rightarrow> string" where
  "dirname p =
     (let (d, rest) = splitdrive p;
          head = rev (dropWhile (\<lambda>c. \<not> is_sep c) (rev rest));
          head' = rev (dropWhile is_sep (rev head))
      in d @ (if head' = [] then head else head'))"

definition join :: "string \<Rightarrow> string \<Rightarrow> string" where
  "join a b =
     (let (d, p) = splitdrive a
      in d @ (if p \<noteq> [] \<and> \<not> is_sep (last p) then p @ [BSLASH] else p) @ b)"

lemma rstrip_decomp: "\<exists>zs. xs = rev (dropWhile P (rev xs)) @ zs"
proof -
  have "rev (rev xs) = rev (takeWhile P (rev xs) @ dropWhile P (rev xs))"
    by (simp only: takeWhile_dropWhile_id)
  then have "xs = rev (dropWhile P (rev xs)) @ rev (takeWhile P (rev xs))"
    by (simp only: rev_rev_ident rev_append)
  then show ?thesis by blast
qed

lemma splitdrive_fst_snd: "fst (splitdrive p) @ snd (splitdrive p) = p"
  by (simp add: splitdrive_def)

lemma splitdrive_decomp: "splitdrive p = (d, r) \<Longrightarrow> p = d @ r"
  using splitdrive_fst_snd [of p] by simp

lemma rstrip_prefix: "prefix (rev (dropWhile P (rev xs))) xs"
  unfolding prefix_def by (rule rstrip_decomp)

lemma dirname_prefix: "prefix (dirname p) p"
proof -
  obtain d r where dr: "splitdrive p = (d, r)" by (cases "splitdrive p")
  let ?head = "rev (dropWhile (\<lambda>c. \<not> is_sep c) (rev r))"
  let ?head' = "rev (dropWhile is_sep (rev ?head))"
  have dn: "dirname p = d @ (if ?head' = [] then ?head else ?head')"
    unfolding dirname_def dr Let_def prod.case by (rule refl)
  have ph: "prefix ?head r" by (rule rstrip_prefix)
  have "prefix ?head' ?head" by (rule rstrip_prefix)
  then have ph': "prefix ?head' r" using ph by (rule prefix_order.trans)
  have "prefix (if ?head' = [] then ?head else ?head') r"
  proof (cases "?head' = []")
    case True
    show ?thesis unfolding if_P [OF True] by (rule ph)
  next
    case False
    show ?thesis unfolding if_not_P [OF False] by (rule ph')
  qed
  then have "prefix (d @ (if ?head' = [] then ?head else ?head')) (d @ r)"
    by (simp only: same_prefix_prefix)
  then show ?thesis
    unfolding dn splitdrive_decomp [OF dr, symmetric] .
qed

lemma dirname_decomp: "\<exists>zs. p = dirname p @ zs"
  using dirname_prefix [of p] unfolding prefix_def .

lemma dirname_shrinks: "dirname p = p \<or> length (dirname p) < length p"
proof -
  obtain zs where zs: "p = dirname p @ zs" using dirname_decomp by blast
  then have "length p = length (dirname p) + length zs"
    by (metis length_append)
  moreover from zs have "zs = [] \<Longrightarrow> dirname p = p" by simp
  ultimately show ?thesis by (cases zs) auto
qed

text \<open>The \<^verbatim>\<open>while cur_dir != last_dir\<close> loop of \<^verbatim>\<open>Tortoise.find_root\<close>. The result is
  the value of \<^verbatim>\<open>root_dir\<close> when the loop ends (\<open>None\<close> while nothing was found);
  \<open>last_dir\<close> is \<open>None\<close> before the first round.\<close>

function find_root_loop ::
  "(string \<Rightarrow> bool) \<Rightarrow> string \<Rightarrow> bool \<Rightarrow> string option \<Rightarrow> string option \<Rightarrow> string
     \<Rightarrow> string option" where
  "find_root_loop path_exists name find_first root_dir last_dir cur_dir =
     (if Some cur_dir \<noteq> last_dir then
        (if root_dir \<noteq> None \<and> \<not> path_exists (join cur_dir name) then root_dir
         else if path_exists (join cur_dir name) then
           (if find_first then Some cur_dir
            else find_root_loop path_exists name find_first
                   (Some cur_dir) (Some cur_dir) (dirname cur_dir))
         else find_root_loop path_exists name find_first
                root_dir (Some cur_dir) (dirname cur_dir))
      else root_dir)"
  by pat_completeness auto
termination
proof (relation "measure (\<lambda>(path_exists, name, find_first, root_dir, last_dir, cur_dir).
          length cur_dir + (if Some cur_dir = last_dir then 0 else 1))")
  show "wf (measure (\<lambda>(path_exists, name, find_first, root_dir, last_dir, cur_dir).
          length cur_dir + (if Some cur_dir = last_dir then 0 else 1)))"
    by simp
next
  fix path_exists :: "string \<Rightarrow> bool" and name :: string and find_first :: bool
    and root_dir last_dir :: "string option" and cur_dir :: string
  assume "Some cur_dir \<noteq> last_dir"
  then show "((path_exists, name, find_first, Some cur_dir, Some cur_dir, dirname cur_dir),
              (path_exists, name, find_first, root_dir, last_dir, cur_dir))
             \<in> measure (\<lambda>(path_exists, name, find_first, root_dir, last_dir, cur_dir).
                  length cur_dir + (if Some cur_dir = last_dir then 0 else 1))"
    using dirname_shrinks [of cur_dir] by auto
next
  fix path_exists :: "string \<Rightarrow> bool" and name :: string and find_first :: bool
    and root_dir last_dir :: "string option" and cur_dir :: string
  assume "Some cur_dir \<noteq> last_dir"
  then show "((path_exists, name, find_first, root_dir, Some cur_dir, dirname cur_dir),
              (path_exists, name, find_first, root_dir, last_dir, cur_dir))
             \<in> measure (\<lambda>(path_exists, name, find_first, root_dir, last_dir, cur_dir).
                  length cur_dir + (if Some cur_dir = last_dir then 0 else 1))"
    using dirname_shrinks [of cur_dir] by auto
qed

declare find_root_loop.simps [simp del]

definition find_root ::
  "(string \<Rightarrow> bool) \<Rightarrow> (string \<Rightarrow> bool) \<Rightarrow> string \<Rightarrow> string \<Rightarrow> bool \<Rightarrow> exn + string" where
  "find_root isdir path_exists name path find_first =
     (case find_root_loop path_exists name find_first None None
             (if isdir path then path else dirname path) of
        None \<Rightarrow> Inl (RepositoryNotFoundError (''Unable to find '' @ name @ '' directory''))
      | Some root_dir \<Rightarrow> Inr root_dir)"

section \<open>The back ends and the selector\<close>

text \<open>What the plugin reads from its host: \<^verbatim>\<open>os.path.expandvars('%HOMEDRIVE%\\')\<close>,
  the program files directory of the environment, \<^verbatim>\<open>sublime.packages_path()\<close> and
  the module constant \<^verbatim>\<open>PACKAGE_ROOT\<close>.\<close>

record host =
  root_drive :: string
  program_files :: string
  packages_path :: string
  package_root :: string

text \<open>\<^verbatim>\<open>Tortoise.set_binary_path\<close> sets \<^verbatim>\<open>self.path = None\<close> and always raises
  \<^verbatim>\<open>NotFoundError\<close> (the search it once made is commented out); the model returns
  the exception. \<open>class_name\<close> is \<^verbatim>\<open>self.__class__.__name__\<close>.\<close>

definition set_binary_path :: "host \<Rightarrow> string \<Rightarrow> string \<Rightarrow> string \<Rightarrow> string \<Rightarrow> exn" where
  "set_binary_path h class_name path_suffix binary_name setting_name =
     (let normal_path = root_drive h @ program_files h @ path_suffix
      in NotFoundError
           (''Unable to find '' @ class_name @ ''.'' @ [LF, LF] @
            ''Please add the path to '' @ binary_name @ '' to the setting '' @
            [DQUOTE] @ setting_name @ [DQUOTE] @ '' in '' @ [DQUOTE] @ packages_path h @
            [BSLASH] @ ''Tortoise'' @ [BSLASH] @ ''Tortoise.sublime-settings'' @ [DQUOTE] @
            ''.'' @ [LF, LF] @ ''Example:'' @ [LF, LF] @ ''{'' @ [DQUOTE] @ setting_name @
            [DQUOTE] @ '': r'' @ [DQUOTE] @ normal_path @ [DQUOTE] @ ''}''))"

text \<open>A constructed back end: its class, \<^verbatim>\<open>self.path\<close> (the GUI binary) and
  \<^verbatim>\<open>self.root_dir\<close>.\<close>

datatype vcs =
    TortoiseSVN string string
  | TortoiseGit string string
  | TortoiseHg string string

definition TortoiseSVN_init ::
  "host \<Rightarrow> (string \<Rightarrow> bool) \<Rightarrow> (string \<Rightarrow> bool) \<Rightarrow> string option \<Rightarrow> string \<Rightarrow> exn + vcs" where
  "TortoiseSVN_init h isdir path_exists binary_path file =
     (case find_root isdir path_exists ''.svn'' file False of
        Inl e \<Rightarrow> Inl e
      | Inr root_dir \<Rightarrow>
          (case binary_path of
             Some b \<Rightarrow> Inr (TortoiseSVN b root_dir)
           | None \<Rightarrow>
               Inl (set_binary_path h ''TortoiseSVN''
                      (''TortoiseSVN'' @ [BSLASH] @ ''bin'' @ [BSLASH] @ ''TortoiseProc.exe'')
                      ''TortoiseProc.exe'' ''svn_tortoiseproc_path'')))"

definition TortoiseGit_init ::
  "host \<Rightarrow> (string \<Rightarrow> bool) \<Rightarrow> (string \<Rightarrow> bool) \<Rightarrow> string option \<Rightarrow> string \<Rightarrow> exn + vcs" where
  "TortoiseGit_init h isdir path_exists binary_path file =
     (case find_root isdir path_exists ''.git'' file True of
        Inl e \<Rightarrow> Inl e
      | Inr root_dir \<Rightarrow>
          (case binary_path of
             Some b \<Rightarrow> Inr (TortoiseGit b root_dir)
           | None \<Rightarrow>
               Inl (set_binary_path h ''TortoiseGit''
                      (''TortoiseGit'' @ [BSLASH] @ ''bin'' @ [BSLASH] @ ''TortoiseProc.exe'')
                      ''TortoiseProc.exe'' ''git_tortoiseproc_path'')))"

text \<open>In \<^verbatim>\<open>TortoiseHg.__init__\<close> the first \<^verbatim>\<open>set_binary_path\<close> raises
  \<^verbatim>\<open>NotFoundError\<close>, which is caught, and the second call raises the one that
  leaves the constructor.\<close>

definition TortoiseHg_init ::
  "host \<Rightarrow> (string \<Rightarrow> bool) \<Rightarrow> (string \<Rightarrow> bool) \<Rightarrow> string option \<Rightarrow> string \<Rightarrow> exn + vcs" where
  "TortoiseHg_init h isdir path_exists binary_path file =
     (case find_root isdir path_exists ''.hg'' file True of
        Inl e \<Rightarrow> Inl e
      | Inr root_dir \<Rightarrow>
          (case binary_path of
             Some b \<Rightarrow> Inr (TortoiseHg b root_dir)
           | None \<Rightarrow>
               (case set_binary_path h ''TortoiseHg''
                       (''TortoiseHg'' @ [BSLASH] @ ''thgw.exe'') ''thgw.exe'' ''hg_hgtk_path'' of
                  NotFoundError _ \<Rightarrow>
                    Inl (set_binary_path h ''TortoiseHg''
                           (''TortoiseHg'' @ [BSLASH] @ ''hgtk.exe'')
                           (''thgw.exe (for TortoiseHg v2.x) or hgtk.exe (for '' @
                            ''TortoiseHg v1.x)'') ''hg_hgtk_path'')
                | e \<Rightarrow> Inl e)))"

text \<open>One \<^verbatim>\<open>try: vcs = ... except (RepositoryNotFoundError): pass\<close> block of
  \<^verbatim>\<open>get_vcs\<close>: the constructor's outcome and the value of \<^verbatim>\<open>vcs\<close> before the block
  give the value after it, or the exception that leaves \<^verbatim>\<open>get_vcs\<close>.\<close>

fun try_assign :: "exn + vcs \<Rightarrow> vcs option \<Rightarrow> exn + vcs option" where
  "try_assign (Inr v) vcs = Inr (Some v)"
| "try_assign (Inl (RepositoryNotFoundError m)) vcs = Inr vcs"
| "try_assign (Inl e) vcs = Inl e"

text \<open>\<^verbatim>\<open>TortoiseCommand.get_vcs(path)\<close>; \<open>None\<close> is the path of an unsaved file.\<close>

definition get_vcs ::
  "host \<Rightarrow> (string \<Rightarrow> bool) \<Rightarrow> (string \<Rightarrow> bool) \<Rightarrow> settings \<Rightarrow> string option \<Rightarrow> exn + vcs" where
  "get_vcs h isdir path_exists st path_opt =
     (case path_opt of
        None \<Rightarrow> Inl (NotFoundError ''Unable to run commands on an unsaved file'')
      | Some path \<Rightarrow>
          (case try_assign (TortoiseSVN_init h isdir path_exists (svn_tortoiseproc_path st) path)
                  None of
             Inl e \<Rightarrow> Inl e
           | Inr vcs1 \<Rightarrow>
               (case try_assign
                       (TortoiseGit_init h isdir path_exists (git_tortoiseproc_path st) path)
                       vcs1 of
                  Inl e \<Rightarrow> Inl e
                | Inr vcs2 \<Rightarrow>
                    (case try_assign
                            (TortoiseHg_init h isdir path_exists (hg_hgtk_path st) path)
                            vcs2 of
                       Inl e \<Rightarrow> Inl e
                     | Inr None \<Rightarrow>
                         Inl (NotFoundError
                                (''The current file does not appear to be in an '' @
                                 ''SVN, Git or Mercurial working copy''))
                     | Inr (Some v) \<Rightarrow> Inr v))))"

text \<open>The parser objects the back ends build in \<^verbatim>\<open>get_status\<close>:
  \<^verbatim>\<open>SVN(self.root_dir)\<close> with the candidates of \<^verbatim>\<open>get_svn_paths\<close>,
  \<^verbatim>\<open>Git(self.path, self.root_dir)\<close> and \<^verbatim>\<open>Hg(self.path, self.root_dir)\<close>. In
  \<^verbatim>\<open>Git.__init__\<close> the second operand of \<^verbatim>\<open>or\<close> is never empty, so the third is
  never used and the search thread is never started.\<close>

definition get_svn_paths :: "host \<Rightarrow> settings \<Rightarrow> string list" where
  "get_svn_paths h st =
     (case svn_path st of Some p \<Rightarrow> [p] | None \<Rightarrow> []) @
     [join (join (join (packages_path h) (package_root h)) ''svn'') ''svn.exe'']"

definition SVN_init :: "host \<Rightarrow> settings \<Rightarrow> string \<Rightarrow> SVN" where
  "SVN_init h st root_dir = \<lparr>svn_root_dir = root_dir, svn_paths = get_svn_paths h st\<rparr>"

definition Git_init :: "settings \<Rightarrow> string \<Rightarrow> string \<Rightarrow> Git" where
  "Git_init st tortoise_proc_path root_dir =
     \<lparr>git_path =
        (case git_tgit_path st of
           Some p \<Rightarrow> if p \<noteq> [] then p else dirname tortoise_proc_path @ [BSLASH] @ ''tgit.exe''
         | None \<Rightarrow> dirname tortoise_proc_path @ [BSLASH] @ ''tgit.exe''),
      git_root_dir = root_dir\<rparr>"

definition Hg_init :: "string \<Rightarrow> string \<Rightarrow> Hg" where
  "Hg_init tortoise_proc_path root_dir =
     \<lparr>hg_path = dirname tortoise_proc_path @ [BSLASH] @ ''hg.exe'', hg_root_dir = root_dir\<rparr>"

fun checker_of :: "host \<Rightarrow> settings \<Rightarrow> vcs \<Rightarrow> checker" where
  "checker_of h st (TortoiseSVN p root_dir) = SVN_checker (SVN_init h st root_dir)"
| "checker_of h st (TortoiseGit p root_dir) = Git_checker (Git_init st p root_dir)"
| "checker_of h st (TortoiseHg p root_dir) = Hg_checker (Hg_init p root_dir)"

text \<open>\<^verbatim>\<open>get_status(path)\<close> of the three back ends.\<close>

definition get_status ::
  "host \<Rightarrow> (string \<Rightarrow> bool) \<Rightarrow> popen \<Rightarrow> settings \<Rightarrow> real \<Rightarrow> real \<Rightarrow> vcs \<Rightarrow> string \<Rightarrow> world
     \<Rightarrow> string option \<times> world" where
  "get_status h isdir popen st now_lookup now_store v path w =
     process_status isdir popen st now_lookup now_store (checker_of h st v) path w"

section \<open>The file search of utils.py\<close>

text \<open>\<^verbatim>\<open>fnmatch.filter(names, pat)\<close> for a pattern without wild cards, as
  \<^verbatim>\<open>'git.exe'\<close> is: the names equal to the pattern after \<^verbatim>\<open>os.path.normcase\<close>
  (the identity on POSIX, lower case and back slashes on Windows).\<close>

definition ffilter :: "(string \<Rightarrow> string) \<Rightarrow> string list \<Rightarrow> string \<Rightarrow> string list" where
  "ffilter normcase names pat = filter (\<lambda>n. normcase n = normcase pat) names"

text \<open>\<^verbatim>\<open>ntpath.normcase\<close>, the \<^verbatim>\<open>os.path.normcase\<close> of Windows, on ASCII text:
  \<^verbatim>\<open>s.replace('/', '\\').lower()\<close>.\<close>

definition lower_char :: "char \<Rightarrow> char" where
  "lower_char c =
     (if (65::nat) \<le> of_char c \<and> of_char c \<le> (90::nat)
      then char_of (of_char c + (32::nat)) else c)"

definition ntpath_normcase :: "string \<Rightarrow> string" where
  "ntpath_normcase s = map (\<lambda>c. if c = SLASH then BSLASH else lower_char c) s"

text \<open>The innermost loop, \<^verbatim>\<open>for filename in ffilter(filenames, 'git.exe')\<close>: it
  assigns \<^verbatim>\<open>match\<close> and leaves the loop when the joined path is not empty.\<close>

fun search_names :: "string \<Rightarrow> string list \<Rightarrow> string option \<Rightarrow> string option" where
  "search_names walk_root [] match = match"
| "search_names walk_root (filename # rest) match =
     (let match' = join walk_root filename
      in if match' \<noteq> [] then Some match' else search_names walk_root rest (Some match'))"

text \<open>The loop over the triples \<^verbatim>\<open>os.walk(path)\<close> yields.\<close>

fun search_walk ::
  "(string \<Rightarrow> string) \<Rightarrow> (string \<times> string list \<times> string list) list \<Rightarrow> string option
     \<Rightarrow> string option" where
  "search_walk normcase [] match = match"
| "search_walk normcase ((walk_root, dirnames, filenames) # rest) match =
     search_walk normcase rest
       (search_names walk_root (ffilter normcase filenames ''git.exe'') match)"

text \<open>The loop over \<^verbatim>\<open>dirs\<close>; \<open>walk\<close> gives the triples of \<^verbatim>\<open>os.walk\<close> for a
  directory.\<close>

fun search_dirs ::
  "(string \<Rightarrow> bool) \<Rightarrow> (string \<Rightarrow> (string \<times> string list \<times> string list) list) \<Rightarrow>
   (string \<Rightarrow> string) \<Rightarrow> string list \<Rightarrow> string option \<Rightarrow> string option" where
  "search_dirs isdir walk normcase [] match = match"
| "search_dirs isdir walk normcase (path # rest) match =
     (if \<not> isdir path then search_dirs isdir walk normcase rest match
      else search_dirs isdir walk normcase rest (search_walk normcase (walk path) match))"

definition search_file ::
  "(string \<Rightarrow> bool) \<Rightarrow> (string \<Rightarrow> (string \<times> string list \<times> string list) list) \<Rightarrow>
   (string \<Rightarrow> string) \<Rightarrow> string \<Rightarrow> string list \<Rightarrow> string option" where
  "search_file isdir walk normcase filename dirs = search_dirs isdir walk normcase dirs None"

section \<open>Notions used in the statements\<close>

text \<open>The directories \<^verbatim>\<open>find_root\<close> visits: level 0 is the start directory (the path
  itself when it is a directory, else its parent), level \<open>j + 1\<close> the parent of
  level \<open>j\<close>.\<close>

definition ancestor :: "(string \<Rightarrow> bool) \<Rightarrow> string \<Rightarrow> nat \<Rightarrow> string" where
  "ancestor isdir path j = (dirname ^^ j) (if isdir path then path else dirname path)"

text \<open>The paths the loops of \<^verbatim>\<open>search_file\<close> assign to \<^verbatim>\<open>match\<close>, in the order of
  assignment: for each argument that is a directory, for each triple of its walk, the
  first name that \<^verbatim>\<open>fnmatch.filter\<close> keeps for the pattern \<^verbatim>\<open>'git.exe'\<close>, joined to
  the directory of the triple.\<close>

definition git_exe_hits ::
  "(string \<Rightarrow> bool) \<Rightarrow> (string \<Rightarrow> (string \<times> string list \<times> string list) list) \<Rightarrow>
   (string \<Rightarrow> string) \<Rightarrow> string list \<Rightarrow> string list" where
  "git_exe_hits isdir walk normcase dirs =
     concat (map (\<lambda>path. concat (map (\<lambda>(walk_root, dirnames, filenames).
                      map (join walk_root) (take 1 (ffilter normcase filenames ''git.exe'')))
                    (walk path)))
               (filter isdir dirs))"

definition last_hit :: "string list \<Rightarrow> string option \<Rightarrow> string option" where
  "last_hit hs match = (if hs = [] then match else Some (last hs))"


section \<open>Concrete inputs\<close>

text \<open>The inputs at which the statements below are instantiated: an empty state, a
  repository directory on drive C, a source tree on the same drive, settings with and
  without the binary paths, and outputs of the command line clients.\<close>

abbreviation w0 :: world where
  "w0 \<equiv> \<lparr>file_status_cache = Map.empty, error_messages = [], popen_calls = [],
          status_checks = 0\<rparr>"

abbreviation repo :: string where "repo \<equiv> ''C:'' @ [BSLASH] @ ''repo''"

abbreviation st10 :: settings where
  "st10 \<equiv> \<lparr>svn_tortoiseproc_path = None, git_tortoiseproc_path = None, hg_hgtk_path = None,
            svn_path = None, git_tgit_path = None, cache_length = 10, debug = False\<rparr>"

abbreviation git0 :: checker where
  "git0 \<equiv> Git_checker \<lparr>git_path = ''git.exe'', git_root_dir = repo\<rparr>"

abbreviation foo_txt :: string where "foo_txt \<equiv> repo @ [BSLASH] @ ''foo.txt''"

abbreviation svn_two :: SVN where
  "svn_two \<equiv> \<lparr>svn_root_dir = repo, svn_paths = [''svn1.exe'', ''svn2.exe'']\<rparr>"

abbreviation popen_too_old :: popen where
  "popen_too_old \<equiv> (\<lambda>args cwd.
     if args = [''svn1.exe'', ''status'', foo_txt]
     then Inr (''svn: E200030: sqlite: disk I/O error'' @ [CR, LF])
     else Inr (''svn: E155021: This client is too old to work with the working copy'' @ [CR, LF]))"

abbreviation popen_second_ok :: popen where
  "popen_second_ok \<equiv> (\<lambda>args cwd.
     if args = [''svn1.exe'', ''status'', foo_txt]
     then Inr (''svn: E200030: sqlite: disk I/O error'' @ [CR, LF])
     else Inr (''M       foo.txt'' @ [CR, LF]))"

abbreviation git_repo :: Git where
  "git_repo \<equiv> \<lparr>git_path = ''git.exe'', git_root_dir = repo\<rparr>"

abbreviation hg_repo :: Hg where
  "hg_repo \<equiv> \<lparr>hg_path = ''hg.exe'', hg_root_dir = repo\<rparr>"

abbreviation file_txt :: string where
  "file_txt \<equiv> repo @ [BSLASH] @ ''path/to/file.txt''"

abbreviation ws_dir :: string where "ws_dir \<equiv> ''C:'' @ [BSLASH] @ ''ws''"
abbreviation proj_dir :: string where "proj_dir \<equiv> ws_dir @ [BSLASH] @ ''proj''"
abbreviation src_dir :: string where "src_dir \<equiv> proj_dir @ [BSLASH] @ ''src''"
abbreviation main_c :: string where "main_c \<equiv> src_dir @ [BSLASH] @ ''main.c''"

abbreviation svn_everywhere :: "string \<Rightarrow> bool" where
  "svn_everywhere \<equiv> (\<lambda>p. p = ws_dir @ [BSLASH] @ ''.svn'' \<or> p = proj_dir @ [BSLASH] @ ''.svn'' \<or>
                          p = src_dir @ [BSLASH] @ ''.svn'')"

abbreviation h0 :: host where
  "h0 \<equiv> \<lparr>root_drive = ''C:'' @ [BSLASH], program_files = ''Program Files'' @ [BSLASH],
          packages_path = ''C:'' @ [BSLASH] @ ''Packages'', package_root = ''Tortoise''\<rparr>"

abbreviation git_only :: "string \<Rightarrow> bool" where
  "git_only \<equiv> (\<lambda>p. p = ws_dir @ [BSLASH] @ ''.git'')"

abbreviation git_and_hg :: "string \<Rightarrow> bool" where
  "git_and_hg \<equiv> (\<lambda>p. p = ws_dir @ [BSLASH] @ ''.git'' \<or> p = proj_dir @ [BSLASH] @ ''.hg'')"

abbreviation st_paths :: settings where
  "st_paths \<equiv> \<lparr>svn_tortoiseproc_path = Some ''svnproc.exe'',
                git_tortoiseproc_path = Some ''gitproc.exe'', hg_hgtk_path = Some ''thgw.exe'',
                svn_path = None, git_tgit_path = None, cache_length = 10, debug = False\<rparr>"

abbreviation st_no_hg :: settings where
  "st_no_hg \<equiv> \<lparr>svn_tortoiseproc_path = Some ''svnproc.exe'',
                git_tortoiseproc_path = Some ''gitproc.exe'', hg_hgtk_path = None,
                svn_path = None, git_tgit_path = None, cache_length = 10, debug = False\<rparr>"

abbreviation progs :: string where "progs \<equiv> ''C:'' @ [BSLASH] @ ''Program Files''"

abbreviation walk_upper :: "string \<Rightarrow> (string \<times> string list \<times> string list) list" where
  "walk_upper \<equiv> (\<lambda>p. [(progs, [''Git''], [''readme.txt'']),
                       (progs @ [BSLASH] @ ''Git'', [], [''GIT.EXE'', ''svn.exe''])])"

abbreviation walk_progs :: "string \<Rightarrow> (string \<times> string list \<times> string list) list" where
  "walk_progs \<equiv> (\<lambda>p. [(progs, [''Git'', ''Old''], [''readme.txt'']),
                       (progs @ [BSLASH] @ ''Git'', [], [''git.exe'', ''svn.exe'']),
                       (progs @ [BSLASH] @ ''Old'', [], [''svn.exe'', ''git.exe''])])"

section \<open>Facts about the string operations\<close>

lemma split_on_nonempty: "split_on c s \<noteq> []"
  by (induction s) (auto split: list.splits)

lemma split_on_no_sep: "l \<in> set (split_on c s) \<Longrightarrow> c \<notin> set l"
proof (induction s arbitrary: l)
  case Nil
  then show ?case by simp
next
  case (Cons x xs)
  obtain h t where ht: "split_on c xs = h # t"
    using split_on_nonempty [of c xs] by (cases "split_on c xs") auto
  show ?case
  proof (cases "x = c")
    case True
    with Cons show ?thesis by auto
  next
    case False
    with Cons.prems ht have "l = x # h \<or> l \<in> set t" by auto
    then show ?thesis
    proof
      assume "l = x # h"
      moreover have "c \<notin> set h" using Cons.IH [of h] ht by simp
      ultimately show ?thesis using False by auto
    next
      assume "l \<in> set t"
      then show ?thesis using Cons.IH [of l] ht by simp
    qed
  qed
qed

lemma re_search_no_newline:
  "LF \<notin> set line \<Longrightarrow> re_search_escaped_eol p line = suffix p line"
  by (auto simp: re_search_escaped_eol_def suffix_def)

section \<open>Facts about the Subversion parser\<close>

lemma svn_scan_find:
  "svn_scan svn path ls =
     (case find (\<lambda>l. l \<noteq> [] \<and> line_matches_path (svn_root_dir svn) path l) ls of
        None \<Rightarrow> []
      | Some l \<Rightarrow> [hd l])"
  by (induction ls) (auto simp: hd_conv_nth)

lemma find_cong_set: "(\<And>x. x \<in> set xs \<Longrightarrow> P x = Q x) \<Longrightarrow> find P xs = find Q xs"
  by (induction xs) auto

lemma svn_first_candidate_ok:
  assumes "popen [sp, ''status'', path] (svn_root_dir svn) = Inr readout"
    and "\<not> prefix ''svn: E'' (hd (split_on LF (normalise_output readout)))"
  shows "svn_candidates popen svn path (sp # rest) result w =
           (Inr (Some (split_on LF (normalise_output readout))),
            w\<lparr>popen_calls := popen_calls w @ [([sp, ''status'', path], svn_root_dir svn)]\<rparr>)"
  using assms split_on_nonempty [of LF "normalise_output readout"]
  by (simp add: NonInteractiveProcess_run_def Let_def hd_conv_nth)

section \<open>Subversion: which line gives the status\<close>

text \<open>
  Claim C1, as the specification states it: with lines for both \<^verbatim>\<open>foo.txt\<close> and
  \<^verbatim>\<open>barfoo.txt\<close> in the listing, a query for \<^verbatim>\<open>foo.txt\<close> never takes its status
  from the \<^verbatim>\<open>barfoo.txt\<close> line. The code does: the line of \<^verbatim>\<open>barfoo.txt\<close> ends
  with \<^verbatim>\<open>foo.txt\<close>, so when it comes first its \<^verbatim>\<open>M\<close> is returned, although the line
  of \<^verbatim>\<open>foo.txt\<close> itself says \<^verbatim>\<open>?\<close> (the second equation: the same two lines in
  the other order).
\<close>

theorem svn_barfoo_line_counterexample:
  "fst (SVN_check_status
         (\<lambda>args cwd. Inr (''M       barfoo.txt'' @ [LF] @ ''?       foo.txt''))
         \<lparr>svn_root_dir = repo, svn_paths = [''svn.exe'']\<rparr>
         (repo @ [BSLASH] @ ''foo.txt'') w0) = Inr ''M'' \<and>
   fst (SVN_check_status
         (\<lambda>args cwd. Inr (''?       foo.txt'' @ [LF] @ ''M       barfoo.txt''))
         \<lparr>svn_root_dir = repo, svn_paths = [''svn.exe'']\<rparr>
         (repo @ [BSLASH] @ ''foo.txt'') w0) = Inr ''?''"
  by (simp add: SVN_check_status_def NonInteractiveProcess_run_def normalise_output_def
      rstrip_chars_def line_matches_path_def re_search_escaped_eol_def suffix_to_prefix)

text \<open>
  Claim C1, amended: the matching anchors the end of the line only. When the first
  candidate binary reports no fatal error and the queried path is not the root,
  \<^verbatim>\<open>SVN.check_status\<close> returns the first character of the first non-empty line that
  ends with the path relative to the root, and \<^verbatim>\<open>''\<close> when there is no such line. A
  line that does not end with that path is never used; a line of another file whose name
  ends with it is.
\<close>

theorem svn_status_from_first_line_ending_with_path:
  assumes "svn_paths svn = sp # rest"
    and "popen [sp, ''status'', path] (svn_root_dir svn) = Inr readout"
    and "\<not> prefix ''svn: E'' (hd (split_on LF (normalise_output readout)))"
    and "svn_root_dir svn \<noteq> path"
  shows "fst (SVN_check_status popen svn path w) =
           Inr (case find (\<lambda>l. l \<noteq> [] \<and>
                            suffix (replace_first (svn_root_dir svn @ [BSLASH]) [] path) l)
                       (split_on LF (normalise_output readout)) of
                  None \<Rightarrow> []
                | Some l \<Rightarrow> [hd l])"
proof -
  let ?ls = "split_on LF (normalise_output readout)"
  let ?rel = "replace_first (svn_root_dir svn @ [BSLASH]) [] path"
  have "find (\<lambda>l. l \<noteq> [] \<and> line_matches_path (svn_root_dir svn) path l) ?ls =
        find (\<lambda>l. l \<noteq> [] \<and> suffix ?rel l) ?ls"
  proof (rule find_cong_set)
    fix l assume "l \<in> set ?ls"
    then have "LF \<notin> set l" by (rule split_on_no_sep)
    then show "(l \<noteq> [] \<and> line_matches_path (svn_root_dir svn) path l) =
               (l \<noteq> [] \<and> suffix ?rel l)"
      using assms(4) by (simp add: line_matches_path_def re_search_no_newline)
  qed
  then show ?thesis
    using svn_first_candidate_ok [of popen sp path svn readout rest None w] assms(1-3)
    by (simp add: SVN_check_status_def svn_scan_find)
qed

theorem svn_status_from_first_line_ending_with_path_witness:
  "fst (SVN_check_status
         (\<lambda>args cwd. Inr (''M       foo.txt.bak'' @ [LF] @ ''A       foo.txt'' @ [CR, LF]))
         \<lparr>svn_root_dir = repo, svn_paths = [''svn.exe'']\<rparr>
         (repo @ [BSLASH] @ ''foo.txt'') w0) = Inr ''A''"
  using svn_status_from_first_line_ending_with_path
    [of "\<lparr>svn_root_dir = repo, svn_paths = [''svn.exe'']\<rparr>" "''svn.exe''" "[]"
        "\<lambda>args cwd. Inr (''M       foo.txt.bak'' @ [LF] @ ''A       foo.txt'' @ [CR, LF])"
        "repo @ [BSLASH] @ ''foo.txt''"
        "''M       foo.txt.bak'' @ [LF] @ ''A       foo.txt'' @ [CR, LF]" w0]
  by (simp add: normalise_output_def rstrip_chars_def suffix_to_prefix)

section \<open>Facts about the state the parsers touch\<close>

lemma run_world:
  "snd (NonInteractiveProcess_run popen args cwd w) =
     w\<lparr>popen_calls := popen_calls w @ [(args, cwd)]\<rparr>"
  by (simp add: NonInteractiveProcess_run_def Let_def split: sum.splits)

lemma run_frame:
  "NonInteractiveProcess_run popen args cwd w = (r, w') \<Longrightarrow>
     file_status_cache w' = file_status_cache w \<and> error_messages w' = error_messages w \<and>
     status_checks w' = status_checks w"
  using run_world [of popen args cwd w] by simp

lemma svn_candidates_frame:
  "svn_candidates popen svn path cands result w = (r, w') \<Longrightarrow>
     file_status_cache w' = file_status_cache w \<and> error_messages w' = error_messages w \<and>
     status_checks w' = status_checks w"
proof (induction cands arbitrary: result w)
  case Nil
  then show ?case by simp
next
  case (Cons c cands)
  obtain r1 w1 where run: "NonInteractiveProcess_run popen [c, ''status'', path]
      (svn_root_dir svn) w = (r1, w1)"
    by (cases "NonInteractiveProcess_run popen [c, ''status'', path] (svn_root_dir svn) w")
  note fr = run_frame [OF run]
  show ?case
  proof (cases r1)
    case (Inl e)
    with Cons.prems run fr show ?thesis by simp
  next
    case (Inr out)
    show ?thesis
    proof (cases "svn_candidates popen svn path cands (Some (split_on LF out)) w1 = (r, w')")
      case True
      from Cons.IH [OF True] fr show ?thesis by simp
    next
      case False
      with Cons.prems run Inr have "w' = w1"
        by (auto simp: Let_def split: if_splits list.splits sum.splits)
      with fr show ?thesis by simp
    qed
  qed
qed

lemma check_status_frame:
  assumes "check_status isdir popen vcs path w = (r, w')"
  shows "file_status_cache w' = file_status_cache w \<and> error_messages w' = error_messages w \<and>
         status_checks w' = status_checks w"
proof (cases vcs)
  case (SVN_checker svn)
  obtain r1 w1 where c: "svn_candidates popen svn path (svn_paths svn) None w = (r1, w1)"
    by (cases "svn_candidates popen svn path (svn_paths svn) None w")
  with assms SVN_checker have "w' = w1"
    by (auto simp: SVN_check_status_def split: sum.splits option.splits)
  with svn_candidates_frame [OF c] show ?thesis by simp
next
  case (Git_checker git)
  show ?thesis
  proof (cases "isdir path")
    case True
    obtain r1 w1 where run: "NonInteractiveProcess_run popen [git_path git, ''log'', ''-1'', path]
        (git_root_dir git) w = (r1, w1)"
      by (cases "NonInteractiveProcess_run popen [git_path git, ''log'', ''-1'', path]
            (git_root_dir git) w")
    with assms Git_checker True have "w' = w1"
      by (auto simp: Git_check_status_def Let_def split: sum.splits if_splits)
    with run_frame [OF run] show ?thesis by simp
  next
    case False
    obtain r1 w1 where run: "NonInteractiveProcess_run popen [git_path git, ''status'', ''--short'']
        (git_root_dir git) w = (r1, w1)"
      by (cases "NonInteractiveProcess_run popen [git_path git, ''status'', ''--short'']
            (git_root_dir git) w")
    with assms Git_checker False have "w' = w1"
      by (auto simp: Git_check_status_def Let_def split: sum.splits if_splits)
    with run_frame [OF run] show ?thesis by simp
  qed
next
  case (Hg_checker hg)
  show ?thesis
  proof (cases "isdir path")
    case True
    obtain r1 w1 where run: "NonInteractiveProcess_run popen
        [hg_path hg, ''log'', ''-l'', ''1'', [DQUOTE] @ path @ [DQUOTE]] (hg_root_dir hg) w = (r1, w1)"
      by (cases "NonInteractiveProcess_run popen
            [hg_path hg, ''log'', ''-l'', ''1'', [DQUOTE] @ path @ [DQUOTE]] (hg_root_dir hg) w")
    with assms Hg_checker True have "w' = w1"
      by (auto simp: Hg_check_status_def Let_def split: sum.splits if_splits)
    with run_frame [OF run] show ?thesis by simp
  next
    case False
    obtain r1 w1 where run: "NonInteractiveProcess_run popen [hg_path hg, ''status'', path]
        (hg_root_dir hg) w = (r1, w1)"
      by (cases "NonInteractiveProcess_run popen [hg_path hg, ''status'', path] (hg_root_dir hg) w")
    with assms Hg_checker False have "w' = w1"
      by (auto simp: Hg_check_status_def Let_def split: sum.splits if_splits)
    with run_frame [OF run] show ?thesis by simp
  qed
qed

text \<open>What a lookup that misses the cache does, in one equation.\<close>

lemma process_status_miss:
  assumes "\<not> (path \<in> dom (file_status_cache w) \<and>
              entry_time (the (file_status_cache w path)) > now_lookup - cache_length st)"
    and "check_status isdir popen vcs path (w\<lparr>status_checks := status_checks w + 1\<rparr>) = (r, w1)"
  shows "process_status isdir popen st now_lookup now_store vcs path w =
           (case r of Inr s \<Rightarrow> Some s | Inl e \<Rightarrow> None,
            w1\<lparr>error_messages :=
                  (case r of Inr s \<Rightarrow> error_messages w1
                   | Inl e \<Rightarrow> error_messages w1 @ [exn_str e]),
                file_status_cache := (file_status_cache w1)
                  (path \<mapsto> \<lparr>entry_time = now_store + cache_length st,
                             entry_status = (case r of Inr s \<Rightarrow> Some s | Inl e \<Rightarrow> None)\<rparr>)\<rparr>)"
  using assms by (cases r) (auto simp: process_status_def Let_def)


section \<open>The status cache\<close>

text \<open>
  Claim C2: a lookup is served from the cache exactly when an entry exists whose recorded
  expiry is in the future, and once the time to live has elapsed the next lookup runs one
  new check and overwrites the entry. The code compares the recorded expiry (the time of
  writing plus \<^verbatim>\<open>cache_length\<close>) with the current time minus \<^verbatim>\<open>cache_length\<close>, so
  the length is counted twice. Below, \<^verbatim>\<open>cache_length\<close> is 10 and the entry, written
  at time 90, records the expiry 100. At time 105 the expiry is past, yet the cached
  status is returned and nothing is run or written; only at time 110 the lookup runs
  \<^verbatim>\<open>git status\<close> and finds the modification.
\<close>

theorem process_status_serves_expired_entry:
  "process_status (\<lambda>p. False) (\<lambda>args cwd. Inr ('' M foo.txt'' @ [LF])) st10 105 106 git0 foo_txt
     (w0\<lparr>file_status_cache := [foo_txt \<mapsto> \<lparr>entry_time = 100, entry_status = Some []\<rparr>]\<rparr>)
   = (Some [],
      w0\<lparr>file_status_cache := [foo_txt \<mapsto> \<lparr>entry_time = 100, entry_status = Some []\<rparr>]\<rparr>) \<and>
   process_status (\<lambda>p. False) (\<lambda>args cwd. Inr ('' M foo.txt'' @ [LF])) st10 110 111 git0 foo_txt
     (w0\<lparr>file_status_cache := [foo_txt \<mapsto> \<lparr>entry_time = 100, entry_status = Some []\<rparr>]\<rparr>)
   = (Some ''M'',
      \<lparr>file_status_cache = [foo_txt \<mapsto> \<lparr>entry_time = 121, entry_status = Some ''M''\<rparr>],
       error_messages = [],
       popen_calls = [([''git.exe'', ''status'', ''--short''], repo)],
       status_checks = 1\<rparr>)"
  by (simp add: process_status_def Git_check_status_def NonInteractiveProcess_run_def
      normalise_output_def rstrip_chars_def strip_def is_space_def line_matches_path_def
      re_search_escaped_eol_def suffix_to_prefix upper_def upper_char_def Let_def)

text \<open>
  Claim C5: when \<^verbatim>\<open>vcs.check_status\<close> raises during a lookup that misses the cache,
  \<^verbatim>\<open>process_status\<close> shows the error in a dialog, returns \<^verbatim>\<open>None\<close> instead of
  raising, and still writes an entry for the path, with status \<^verbatim>\<open>None\<close> and the
  expiry \<open>now_store + cache_length\<close>.
\<close>

theorem process_status_check_raises:
  assumes "\<not> (path \<in> dom (file_status_cache w) \<and>
              entry_time (the (file_status_cache w path)) > now_lookup - cache_length st)"
    and "fst (check_status isdir popen vcs path (w\<lparr>status_checks := status_checks w + 1\<rparr>)) = Inl e"
  shows "fst (process_status isdir popen st now_lookup now_store vcs path w) = None \<and>
         error_messages (snd (process_status isdir popen st now_lookup now_store vcs path w)) =
           error_messages w @ [exn_str e] \<and>
         file_status_cache (snd (process_status isdir popen st now_lookup now_store vcs path w)) path =
           Some \<lparr>entry_time = now_store + cache_length st, entry_status = None\<rparr>"
proof -
  obtain w1 where c: "check_status isdir popen vcs path (w\<lparr>status_checks := status_checks w + 1\<rparr>)
      = (Inl e, w1)"
    using assms(2)
    by (cases "check_status isdir popen vcs path (w\<lparr>status_checks := status_checks w + 1\<rparr>)") simp
  from check_status_frame [OF c] have "error_messages w1 = error_messages w" by simp
  then show ?thesis
    by (simp add: process_status_miss [OF assms(1) c])
qed

theorem process_status_check_raises_witness:
  "fst (process_status (\<lambda>p. False) (\<lambda>args cwd. Inl (OSError ''The system cannot find the file specified''))
          st10 105 106 git0 foo_txt w0) = None \<and>
   error_messages (snd (process_status (\<lambda>p. False)
          (\<lambda>args cwd. Inl (OSError ''The system cannot find the file specified''))
          st10 105 106 git0 foo_txt w0)) = [''The system cannot find the file specified''] \<and>
   file_status_cache (snd (process_status (\<lambda>p. False)
          (\<lambda>args cwd. Inl (OSError ''The system cannot find the file specified''))
          st10 105 106 git0 foo_txt w0)) foo_txt =
     Some \<lparr>entry_time = 116, entry_status = None\<rparr>"
  using process_status_check_raises
    [of foo_txt w0 105 st10 "\<lambda>p. False"
        "\<lambda>args cwd. Inl (OSError ''The system cannot find the file specified'')" git0
        "OSError ''The system cannot find the file specified''" 106]
  by (simp add: Git_check_status_def NonInteractiveProcess_run_def)







section \<open>Subversion: fatal errors and the candidate binaries\<close>

lemma split_on_append:
  "c \<notin> set a \<Longrightarrow>
     split_on c (a @ b) = (a @ hd (split_on c b)) # tl (split_on c b)"
proof (induction a)
  case Nil
  then show ?case using split_on_nonempty [of c b] by simp
next
  case (Cons x a)
  then show ?case by auto
qed

lemma split_colon_fatal:
  assumes "prefix ''svn: E'' l"
  shows "\<exists>code r. split_on COLON l = ''svn'' # code # r"
proof -
  obtain t where l: "l = ''svn: E'' @ t" using assms by (auto simp: prefix_def)
  obtain h r where "split_on COLON t = h # r"
    using split_on_nonempty [of COLON t] by (cases "split_on COLON t") auto
  then show ?thesis unfolding l by simp
qed

text \<open>One round of the first loop for a candidate that reports a fatal error other than
  E155021: the loop goes on to the next candidate.\<close>

lemma svn_candidate_other_error:
  assumes "popen [c, ''status'', path] (svn_root_dir svn) = Inr out"
    and "prefix ''svn: E'' (hd (split_on LF (normalise_output out)))"
    and "strip (split_on COLON (hd (split_on LF (normalise_output out))) ! 1) \<noteq> ''E155021''"
  shows "svn_candidates popen svn path (c # rest) result w =
           svn_candidates popen svn path rest (Some (split_on LF (normalise_output out)))
             (w\<lparr>popen_calls := popen_calls w @ [([c, ''status'', path], svn_root_dir svn)]\<rparr>)"
proof -
  obtain code r where sp: "split_on COLON (hd (split_on LF (normalise_output out))) =
      ''svn'' # code # r"
    using split_colon_fatal [of "hd (split_on LF (normalise_output out))"] assms(2) by blast
  with assms(3) have "strip code \<noteq> ''E155021''" by simp
  then show ?thesis
    using assms(1,2) sp split_on_nonempty [of LF "normalise_output out"]
    by (simp add: NonInteractiveProcess_run_def Let_def hd_conv_nth check_errors_def)
qed

lemma svn_candidates_skip:
  assumes "\<forall>c\<in>set pre. \<exists>out. popen [c, ''status'', path] (svn_root_dir svn) = Inr out \<and>
              prefix ''svn: E'' (hd (split_on LF (normalise_output out))) \<and>
              strip (split_on COLON (hd (split_on LF (normalise_output out))) ! 1) \<noteq> ''E155021''"
  shows "\<exists>result'. svn_candidates popen svn path (pre @ rest) result w =
           svn_candidates popen svn path rest result'
             (w\<lparr>popen_calls := popen_calls w @
                  map (\<lambda>c. ([c, ''status'', path], svn_root_dir svn)) pre\<rparr>)"
  using assms
proof (induction pre arbitrary: result w)
  case Nil
  show ?case by (rule exI [of _ result]) simp
next
  case (Cons c pre)
  then obtain out where out: "popen [c, ''status'', path] (svn_root_dir svn) = Inr out"
      "prefix ''svn: E'' (hd (split_on LF (normalise_output out)))"
      "strip (split_on COLON (hd (split_on LF (normalise_output out))) ! 1) \<noteq> ''E155021''"
    by auto
  from Cons.prems have rest: "\<forall>c\<in>set pre. \<exists>out. popen [c, ''status'', path] (svn_root_dir svn) = Inr out \<and>
              prefix ''svn: E'' (hd (split_on LF (normalise_output out))) \<and>
              strip (split_on COLON (hd (split_on LF (normalise_output out))) ! 1) \<noteq> ''E155021''"
    by simp
  obtain result' where "svn_candidates popen svn path (pre @ rest)
        (Some (split_on LF (normalise_output out)))
        (w\<lparr>popen_calls := popen_calls w @ [([c, ''status'', path], svn_root_dir svn)]\<rparr>) =
      svn_candidates popen svn path rest result'
        (w\<lparr>popen_calls := popen_calls w @ [([c, ''status'', path], svn_root_dir svn)]\<rparr>
          \<lparr>popen_calls := popen_calls
              (w\<lparr>popen_calls := popen_calls w @ [([c, ''status'', path], svn_root_dir svn)]\<rparr>) @
              map (\<lambda>c. ([c, ''status'', path], svn_root_dir svn)) pre\<rparr>)"
    using Cons.IH [of "Some (split_on LF (normalise_output out))"
        "w\<lparr>popen_calls := popen_calls w @ [([c, ''status'', path], svn_root_dir svn)]\<rparr>"] rest
    by blast
  then have "svn_candidates popen svn path ((c # pre) @ rest) result w =
      svn_candidates popen svn path rest result'
        (w\<lparr>popen_calls := popen_calls w @
            map (\<lambda>c. ([c, ''status'', path], svn_root_dir svn)) (c # pre)\<rparr>)"
    using svn_candidate_other_error [of popen c path svn out "pre @ rest" result w] out by simp
  then show ?case by blast
qed

lemma svn_candidate_too_old:
  assumes "popen [c, ''status'', path] (svn_root_dir svn) = Inr readout"
    and "prefix ''svn: E155021:'' (normalise_output readout)"
  shows "svn_candidates popen svn path (c # rest) result w =
           (Inl (Exception too_old_message),
            w\<lparr>popen_calls := popen_calls w @ [([c, ''status'', path], svn_root_dir svn)]\<rparr>)"
proof -
  obtain m where m: "normalise_output readout = ''svn: E155021:'' @ m"
    using assms(2) by (auto simp: prefix_def)
  have "split_on LF (''svn: E155021:'' @ m) =
      (''svn: E155021:'' @ hd (split_on LF m)) # tl (split_on LF m)"
    by (rule split_on_append) simp
  then have ls: "split_on LF (normalise_output readout) =
      (''svn: E155021:'' @ hd (split_on LF m)) # tl (split_on LF m)"
    by (simp only: m)
  obtain h r where hr: "split_on COLON (hd (split_on LF m)) = h # r"
    using split_on_nonempty [of COLON "hd (split_on LF m)"]
    by (cases "split_on COLON (hd (split_on LF m))") auto
  have code: "strip '' E155021'' = ''E155021''"
    by (simp add: strip_def is_space_def)
  show ?thesis
    using assms(1)
    by (simp add: NonInteractiveProcess_run_def Let_def ls hr code check_errors_def)
qed

text \<open>
  Claim C8: the candidate binaries are tried in order while each reports a fatal
  \<^verbatim>\<open>svn: E\<close> line (with a code other than E155021); the first candidate \<open>sp\<close> that
  does not is the one whose output is parsed, and the candidates after it are not run.
  When the first line of the output of the candidate reached begins with
  \<^verbatim>\<open>svn: E155021:\<close>, \<^verbatim>\<open>SVN.check_status\<close> raises the too-old-client exception and
  parses nothing.
\<close>

theorem svn_check_status_fatal_errors:
  assumes "svn_paths svn = pre @ sp # post"
    and "\<forall>c\<in>set pre. \<exists>out. popen [c, ''status'', path] (svn_root_dir svn) = Inr out \<and>
              prefix ''svn: E'' (hd (split_on LF (normalise_output out))) \<and>
              strip (split_on COLON (hd (split_on LF (normalise_output out))) ! 1) \<noteq> ''E155021''"
    and "popen [sp, ''status'', path] (svn_root_dir svn) = Inr readout"
  shows "(prefix ''svn: E155021:'' (normalise_output readout) \<longrightarrow>
            SVN_check_status popen svn path w =
              (Inl (Exception too_old_message),
               w\<lparr>popen_calls := popen_calls w @
                    map (\<lambda>c. ([c, ''status'', path], svn_root_dir svn)) (pre @ [sp])\<rparr>)) \<and>
         (\<not> prefix ''svn: E'' (hd (split_on LF (normalise_output readout))) \<longrightarrow>
            SVN_check_status popen svn path w =
              (Inr (svn_scan svn path (split_on LF (normalise_output readout))),
               w\<lparr>popen_calls := popen_calls w @
                    map (\<lambda>c. ([c, ''status'', path], svn_root_dir svn)) (pre @ [sp])\<rparr>))"
proof -
  obtain result' where skip: "svn_candidates popen svn path (pre @ sp # post) None w =
      svn_candidates popen svn path (sp # post) result'
        (w\<lparr>popen_calls := popen_calls w @
            map (\<lambda>c. ([c, ''status'', path], svn_root_dir svn)) pre\<rparr>)"
    using svn_candidates_skip [of pre popen path svn "sp # post" None w] assms(2) by blast
  show ?thesis
  proof (intro conjI impI)
    assume "prefix ''svn: E155021:'' (normalise_output readout)"
    with assms(3) svn_candidate_too_old [of popen sp path svn readout post result'
        "w\<lparr>popen_calls := popen_calls w @
            map (\<lambda>c. ([c, ''status'', path], svn_root_dir svn)) pre\<rparr>"]
    show "SVN_check_status popen svn path w =
        (Inl (Exception too_old_message),
         w\<lparr>popen_calls := popen_calls w @
              map (\<lambda>c. ([c, ''status'', path], svn_root_dir svn)) (pre @ [sp])\<rparr>)"
      by (simp add: SVN_check_status_def assms(1) skip)
  next
    assume "\<not> prefix ''svn: E'' (hd (split_on LF (normalise_output readout)))"
    with assms(3) svn_first_candidate_ok [of popen sp path svn readout post result'
        "w\<lparr>popen_calls := popen_calls w @
            map (\<lambda>c. ([c, ''status'', path], svn_root_dir svn)) pre\<rparr>"]
    show "SVN_check_status popen svn path w =
        (Inr (svn_scan svn path (split_on LF (normalise_output readout))),
         w\<lparr>popen_calls := popen_calls w @
              map (\<lambda>c. ([c, ''status'', path], svn_root_dir svn)) (pre @ [sp])\<rparr>)"
      by (simp add: SVN_check_status_def assms(1) skip)
  qed
qed

theorem svn_check_status_fatal_errors_witness:
  "SVN_check_status popen_too_old svn_two foo_txt w0 =
     (Inl (Exception too_old_message),
      w0\<lparr>popen_calls := [([''svn1.exe'', ''status'', foo_txt], repo),
                           ([''svn2.exe'', ''status'', foo_txt], repo)]\<rparr>) \<and>
   SVN_check_status popen_second_ok svn_two foo_txt w0 =
     (Inr ''M'',
      w0\<lparr>popen_calls := [([''svn1.exe'', ''status'', foo_txt], repo),
                           ([''svn2.exe'', ''status'', foo_txt], repo)]\<rparr>)"
proof -
  have a: "SVN_check_status popen_too_old svn_two foo_txt w0 =
     (Inl (Exception too_old_message),
      w0\<lparr>popen_calls := [([''svn1.exe'', ''status'', foo_txt], repo),
                           ([''svn2.exe'', ''status'', foo_txt], repo)]\<rparr>)"
    using svn_check_status_fatal_errors
      [of svn_two "[''svn1.exe'']" "''svn2.exe''" "[]" popen_too_old foo_txt
          "''svn: E155021: This client is too old to work with the working copy'' @ [CR, LF]" w0]
    by (simp add: normalise_output_def rstrip_chars_def strip_def is_space_def)
  have b: "SVN_check_status popen_second_ok svn_two foo_txt w0 =
     (Inr ''M'',
      w0\<lparr>popen_calls := [([''svn1.exe'', ''status'', foo_txt], repo),
                           ([''svn2.exe'', ''status'', foo_txt], repo)]\<rparr>)"
    using svn_check_status_fatal_errors
      [of svn_two "[''svn1.exe'']" "''svn2.exe''" "[]" popen_second_ok foo_txt
          "''M       foo.txt'' @ [CR, LF]" w0]
    by (simp add: normalise_output_def rstrip_chars_def strip_def is_space_def line_matches_path_def
        re_search_escaped_eol_def suffix_to_prefix)
  from a b show ?thesis by (rule conjI)
qed

section \<open>Git and Mercurial: the status column, and listings without a match\<close>

lemma git_scan_find:
  "git_scan git path ls =
     (case find (\<lambda>l. 2 \<le> length l \<and> line_matches_path (git_root_dir git) path l) ls of
        None \<Rightarrow> []
      | Some l \<Rightarrow> upper [if l ! 0 \<noteq> SP then l ! 0 else l ! 1])"
  by (induction ls) auto

lemma svn_scan_none:
  "\<forall>l\<in>set ls. l = [] \<or> \<not> line_matches_path (svn_root_dir svn) path l \<Longrightarrow>
     svn_scan svn path ls = []"
  by (induction ls) auto

lemma git_scan_none:
  "\<forall>l\<in>set ls. length l < 2 \<or> \<not> line_matches_path (git_root_dir git) path l \<Longrightarrow>
     git_scan git path ls = []"
  by (induction ls) auto

lemma hg_scan_none: "\<forall>l\<in>set ls. l = [] \<Longrightarrow> hg_scan ls = []"
  by (induction ls) auto

lemma git_file_status:
  assumes "\<not> isdir path"
    and "popen [git_path git, ''status'', ''--short''] (git_root_dir git) = Inr readout"
  shows "fst (Git_check_status isdir popen git path w) =
           Inr (git_scan git path (split_on LF (strip (normalise_output readout))))"
  using assms by (simp add: Git_check_status_def NonInteractiveProcess_run_def Let_def)

lemma git_dir_status:
  assumes "isdir path"
    and "popen [git_path git, ''log'', ''-1'', path] (git_root_dir git) = Inr readout"
  shows "fst (Git_check_status isdir popen git path w) =
           Inr (if split_on LF (strip (normalise_output readout)) = [[]] then ''?'' else [])"
  using assms by (simp add: Git_check_status_def NonInteractiveProcess_run_def Let_def)

lemma hg_file_status:
  assumes "\<not> isdir path"
    and "popen [hg_path hg, ''status'', path] (hg_root_dir hg) = Inr readout"
  shows "fst (Hg_check_status isdir popen hg path w) =
           Inr (hg_scan (split_on LF (normalise_output readout)))"
  using assms by (simp add: Hg_check_status_def NonInteractiveProcess_run_def Let_def)

lemma hg_dir_status:
  assumes "isdir path"
    and "popen [hg_path hg, ''log'', ''-l'', ''1'', [DQUOTE] @ path @ [DQUOTE]] (hg_root_dir hg) =
           Inr readout"
  shows "fst (Hg_check_status isdir popen hg path w) =
           Inr (if split_on LF (strip (normalise_output readout)) = [[]] then ''?'' else [])"
  using assms by (simp add: Hg_check_status_def NonInteractiveProcess_run_def Let_def)

text \<open>
  Claim C6: for a file, \<^verbatim>\<open>Git.check_status\<close> takes the first line of
  \<^verbatim>\<open>git status --short\<close> that matches the path; its status is the character in
  column 1 unless that is blank, in which case it is the character in column 2, and the
  result is upper-cased. The lines \<^verbatim>\<open>" M path/to/file.txt"\<close> and
  \<^verbatim>\<open>"A  path/to/file.txt"\<close> give \<^verbatim>\<open>M\<close> and \<^verbatim>\<open>A\<close> (the witness).
\<close>

theorem git_status_column:
  assumes "\<not> isdir path"
    and "popen [git_path git, ''status'', ''--short''] (git_root_dir git) = Inr readout"
    and "find (\<lambda>l. 2 \<le> length l \<and> line_matches_path (git_root_dir git) path l)
           (split_on LF (strip (normalise_output readout))) = Some line"
  shows "fst (Git_check_status isdir popen git path w) =
           Inr (upper [if line ! 0 \<noteq> SP then line ! 0 else line ! 1])"
  using git_file_status [of isdir path popen git readout w] assms
  by (simp add: git_scan_find)

theorem git_status_column_witness:
  "fst (Git_check_status (\<lambda>p. False) (\<lambda>args cwd. Inr ('' M path/to/file.txt'' @ [LF]))
          git_repo file_txt w0) = Inr ''M'' \<and>
   fst (Git_check_status (\<lambda>p. False) (\<lambda>args cwd. Inr (''A  path/to/file.txt'' @ [LF]))
          git_repo file_txt w0) = Inr ''A'' \<and>
   fst (Git_check_status (\<lambda>p. False)
          (\<lambda>args cwd. Inr (''?? notes.txt'' @ [LF] @ '' M path/to/file.txt'' @ [LF]))
          git_repo file_txt w0) = Inr ''M'' \<and>
   fst (Git_check_status (\<lambda>p. False)
          (\<lambda>args cwd. Inr (''?? notes.txt'' @ [LF] @ '' m path/to/file.txt'' @ [LF]))
          git_repo file_txt w0) = Inr ''M''"
proof -
  have a: "fst (Git_check_status (\<lambda>p. False) (\<lambda>args cwd. Inr ('' M path/to/file.txt'' @ [LF]))
          git_repo file_txt w0) = Inr ''M''"
    using git_status_column [of "\<lambda>p. False" file_txt "\<lambda>args cwd. Inr ('' M path/to/file.txt'' @ [LF])"
        git_repo "'' M path/to/file.txt'' @ [LF]" "''M path/to/file.txt''" w0]
    by (simp add: normalise_output_def rstrip_chars_def strip_def is_space_def
        line_matches_path_def re_search_escaped_eol_def suffix_to_prefix upper_def upper_char_def char_of_def bit_0)
  have b: "fst (Git_check_status (\<lambda>p. False) (\<lambda>args cwd. Inr (''A  path/to/file.txt'' @ [LF]))
          git_repo file_txt w0) = Inr ''A''"
    using git_status_column [of "\<lambda>p. False" file_txt "\<lambda>args cwd. Inr (''A  path/to/file.txt'' @ [LF])"
        git_repo "''A  path/to/file.txt'' @ [LF]" "''A  path/to/file.txt''" w0]
    by (simp add: normalise_output_def rstrip_chars_def strip_def is_space_def
        line_matches_path_def re_search_escaped_eol_def suffix_to_prefix upper_def upper_char_def char_of_def bit_0)
  have c: "fst (Git_check_status (\<lambda>p. False)
          (\<lambda>args cwd. Inr (''?? notes.txt'' @ [LF] @ '' M path/to/file.txt'' @ [LF]))
          git_repo file_txt w0) = Inr ''M''"
    using git_status_column [of "\<lambda>p. False" file_txt
        "\<lambda>args cwd. Inr (''?? notes.txt'' @ [LF] @ '' M path/to/file.txt'' @ [LF])"
        git_repo "''?? notes.txt'' @ [LF] @ '' M path/to/file.txt'' @ [LF]"
        "'' M path/to/file.txt''" w0]
    by (simp add: normalise_output_def rstrip_chars_def strip_def is_space_def
        line_matches_path_def re_search_escaped_eol_def suffix_to_prefix upper_def upper_char_def char_of_def bit_0)
  have d: "fst (Git_check_status (\<lambda>p. False)
          (\<lambda>args cwd. Inr (''?? notes.txt'' @ [LF] @ '' m path/to/file.txt'' @ [LF]))
          git_repo file_txt w0) = Inr ''M''"
    using git_status_column [of "\<lambda>p. False" file_txt
        "\<lambda>args cwd. Inr (''?? notes.txt'' @ [LF] @ '' m path/to/file.txt'' @ [LF])"
        git_repo "''?? notes.txt'' @ [LF] @ '' m path/to/file.txt'' @ [LF]"
        "'' m path/to/file.txt''" w0]
    by (simp add: normalise_output_def rstrip_chars_def strip_def is_space_def
        line_matches_path_def re_search_escaped_eol_def suffix_to_prefix upper_def upper_char_def char_of_def bit_0)
  from a b c d show ?thesis by blast
qed

text \<open>
  Claim C7, as the specification states it: for every queried path, empty output or
  output without a matching line gives the status \<^verbatim>\<open>''\<close> from each of the three
  parsers, never an exception. For a directory the Git (and Mercurial) parser maps the
  empty output of the log command to \<^verbatim>\<open>?\<close>; and an SVN listing whose only line
  reports E155021 has no line for the queried file, yet the parser raises.
\<close>

theorem empty_output_counterexample:
  "fst (Git_check_status (\<lambda>p. p = repo @ [BSLASH] @ ''docs'') (\<lambda>args cwd. Inr [])
          git_repo (repo @ [BSLASH] @ ''docs'') w0) = Inr ''?'' \<and>
   fst (SVN_check_status
          (\<lambda>args cwd. Inr (''svn: E155021: This client is too old'' @ [CR, LF]))
          \<lparr>svn_root_dir = repo, svn_paths = [''svn.exe'']\<rparr> foo_txt w0) =
     Inl (Exception too_old_message)"
  by (simp add: Git_check_status_def SVN_check_status_def NonInteractiveProcess_run_def
      normalise_output_def rstrip_chars_def strip_def is_space_def check_errors_def)

text \<open>
  Claim C7, amended. For a path that is not a directory, \<^verbatim>\<open>Git.check_status\<close> and
  \<^verbatim>\<open>Hg.check_status\<close> return \<^verbatim>\<open>''\<close> when the output is empty or has no line that
  qualifies (Git: a line of two characters or more that matches the path; Mercurial: any
  non-empty line). \<^verbatim>\<open>SVN.check_status\<close> returns \<^verbatim>\<open>''\<close> for every path when the
  first candidate reports no fatal \<^verbatim>\<open>svn: E\<close> line and its output is empty or has no
  non-empty line that matches. For a directory, Git and Mercurial return \<^verbatim>\<open>?\<close> when
  the output of the log command is empty. The result is a string in each case, never
  \<^verbatim>\<open>None\<close> and never an exception.
\<close>

theorem no_matching_line_gives_empty_status:
  "(svn_paths svn = sp # rest \<and>
    popen [sp, ''status'', path] (svn_root_dir svn) = Inr readout \<and>
    \<not> prefix ''svn: E'' (hd (split_on LF (normalise_output readout))) \<and>
    (\<forall>l\<in>set (split_on LF (normalise_output readout)).
        l = [] \<or> \<not> line_matches_path (svn_root_dir svn) path l)
    \<longrightarrow> fst (SVN_check_status popen svn path w) = Inr []) \<and>
   (\<not> isdir path \<and>
    popen [git_path git, ''status'', ''--short''] (git_root_dir git) = Inr readout \<and>
    (\<forall>l\<in>set (split_on LF (strip (normalise_output readout))).
        length l < 2 \<or> \<not> line_matches_path (git_root_dir git) path l)
    \<longrightarrow> fst (Git_check_status isdir popen git path w) = Inr []) \<and>
   (\<not> isdir path \<and>
    popen [hg_path hg, ''status'', path] (hg_root_dir hg) = Inr readout \<and>
    (\<forall>l\<in>set (split_on LF (normalise_output readout)). l = [])
    \<longrightarrow> fst (Hg_check_status isdir popen hg path w) = Inr []) \<and>
   (isdir path \<and>
    popen [git_path git, ''log'', ''-1'', path] (git_root_dir git) = Inr readout \<and>
    strip (normalise_output readout) = []
    \<longrightarrow> fst (Git_check_status isdir popen git path w) = Inr ''?'') \<and>
   (isdir path \<and>
    popen [hg_path hg, ''log'', ''-l'', ''1'', [DQUOTE] @ path @ [DQUOTE]] (hg_root_dir hg) =
      Inr readout \<and>
    strip (normalise_output readout) = []
    \<longrightarrow> fst (Hg_check_status isdir popen hg path w) = Inr ''?'')"
proof (intro conjI impI)
  assume a: "svn_paths svn = sp # rest \<and>
    popen [sp, ''status'', path] (svn_root_dir svn) = Inr readout \<and>
    \<not> prefix ''svn: E'' (hd (split_on LF (normalise_output readout))) \<and>
    (\<forall>l\<in>set (split_on LF (normalise_output readout)).
        l = [] \<or> \<not> line_matches_path (svn_root_dir svn) path l)"
  then have "svn_scan svn path (split_on LF (normalise_output readout)) = []"
    using svn_scan_none [of "split_on LF (normalise_output readout)" svn path] by blast
  then show "fst (SVN_check_status popen svn path w) = Inr []"
    using a svn_first_candidate_ok [of popen sp path svn readout rest None w]
    by (simp add: SVN_check_status_def)
next
  assume a: "\<not> isdir path \<and>
    popen [git_path git, ''status'', ''--short''] (git_root_dir git) = Inr readout \<and>
    (\<forall>l\<in>set (split_on LF (strip (normalise_output readout))).
        length l < 2 \<or> \<not> line_matches_path (git_root_dir git) path l)"
  then have "git_scan git path (split_on LF (strip (normalise_output readout))) = []"
    using git_scan_none [of "split_on LF (strip (normalise_output readout))" git path] by blast
  then show "fst (Git_check_status isdir popen git path w) = Inr []"
    using a git_file_status [of isdir path popen git readout w] by simp
next
  assume a: "\<not> isdir path \<and>
    popen [hg_path hg, ''status'', path] (hg_root_dir hg) = Inr readout \<and>
    (\<forall>l\<in>set (split_on LF (normalise_output readout)). l = [])"
  then have "hg_scan (split_on LF (normalise_output readout)) = []"
    using hg_scan_none [of "split_on LF (normalise_output readout)"] by blast
  then show "fst (Hg_check_status isdir popen hg path w) = Inr []"
    using a hg_file_status [of isdir path popen hg readout w] by simp
next
  assume a: "isdir path \<and>
    popen [git_path git, ''log'', ''-1'', path] (git_root_dir git) = Inr readout \<and>
    strip (normalise_output readout) = []"
  then show "fst (Git_check_status isdir popen git path w) = Inr ''?''"
    using git_dir_status [of isdir path popen git readout w] by simp
next
  assume a: "isdir path \<and>
    popen [hg_path hg, ''log'', ''-l'', ''1'', [DQUOTE] @ path @ [DQUOTE]] (hg_root_dir hg) =
      Inr readout \<and>
    strip (normalise_output readout) = []"
  then show "fst (Hg_check_status isdir popen hg path w) = Inr ''?''"
    using hg_dir_status [of isdir path popen hg readout w] by simp
qed

theorem no_matching_line_gives_empty_status_witness:
  "fst (SVN_check_status (\<lambda>args cwd. Inr (''M       other.txt'' @ [CR, LF]))
          \<lparr>svn_root_dir = repo, svn_paths = [''svn.exe'']\<rparr> foo_txt w0) = Inr [] \<and>
   fst (Git_check_status (\<lambda>p. False) (\<lambda>args cwd. Inr ('' M other.txt'' @ [LF]))
          git_repo foo_txt w0) = Inr [] \<and>
   fst (Hg_check_status (\<lambda>p. False) (\<lambda>args cwd. Inr []) hg_repo foo_txt w0) = Inr [] \<and>
   fst (Git_check_status (\<lambda>p. True) (\<lambda>args cwd. Inr [LF]) git_repo repo w0) = Inr ''?'' \<and>
   fst (Hg_check_status (\<lambda>p. True) (\<lambda>args cwd. Inr [LF]) hg_repo repo w0) = Inr ''?''"
proof -
  have a: "fst (SVN_check_status (\<lambda>args cwd. Inr (''M       other.txt'' @ [CR, LF]))
          \<lparr>svn_root_dir = repo, svn_paths = [''svn.exe'']\<rparr> foo_txt w0) = Inr []"
    using no_matching_line_gives_empty_status
      [of "\<lparr>svn_root_dir = repo, svn_paths = [''svn.exe'']\<rparr>" "''svn.exe''" "[]"
          "\<lambda>args cwd. Inr (''M       other.txt'' @ [CR, LF])" foo_txt
          "''M       other.txt'' @ [CR, LF]" w0 "\<lambda>p. False" git_repo hg_repo]
    by (simp add: normalise_output_def rstrip_chars_def strip_def is_space_def
        line_matches_path_def re_search_escaped_eol_def suffix_to_prefix)
  have b: "fst (Git_check_status (\<lambda>p. False) (\<lambda>args cwd. Inr ('' M other.txt'' @ [LF]))
          git_repo foo_txt w0) = Inr []"
    using no_matching_line_gives_empty_status
      [of "\<lparr>svn_root_dir = repo, svn_paths = [''svn.exe'']\<rparr>" "''svn.exe''" "[]"
          "\<lambda>args cwd. Inr ('' M other.txt'' @ [LF])" foo_txt
          "'' M other.txt'' @ [LF]" w0 "\<lambda>p. False" git_repo hg_repo]
    by (simp add: normalise_output_def rstrip_chars_def strip_def is_space_def
        line_matches_path_def re_search_escaped_eol_def suffix_to_prefix)
  have c: "fst (Hg_check_status (\<lambda>p. False) (\<lambda>args cwd. Inr []) hg_repo foo_txt w0) = Inr []"
    using no_matching_line_gives_empty_status
      [of "\<lparr>svn_root_dir = repo, svn_paths = [''svn.exe'']\<rparr>" "''svn.exe''" "[]"
          "\<lambda>args cwd. Inr []" foo_txt "[]" w0 "\<lambda>p. False" git_repo hg_repo]
    by (simp add: normalise_output_def rstrip_chars_def)
  have d: "fst (Git_check_status (\<lambda>p. True) (\<lambda>args cwd. Inr [LF]) git_repo repo w0) = Inr ''?''"
    using no_matching_line_gives_empty_status
      [of "\<lparr>svn_root_dir = repo, svn_paths = [''svn.exe'']\<rparr>" "''svn.exe''" "[]"
          "\<lambda>args cwd. Inr [LF]" repo "[LF]" w0 "\<lambda>p. True" git_repo hg_repo]
    by (simp add: normalise_output_def rstrip_chars_def strip_def)
  have e: "fst (Hg_check_status (\<lambda>p. True) (\<lambda>args cwd. Inr [LF]) hg_repo repo w0) = Inr ''?''"
    using no_matching_line_gives_empty_status
      [of "\<lparr>svn_root_dir = repo, svn_paths = [''svn.exe'']\<rparr>" "''svn.exe''" "[]"
          "\<lambda>args cwd. Inr [LF]" repo "[LF]" w0 "\<lambda>p. True" git_repo hg_repo]
    by (simp add: normalise_output_def rstrip_chars_def strip_def)
  from a b c d e show ?thesis by blast
qed

section \<open>Facts about the root locator\<close>

lemma funpow_fixed: "f c = c \<Longrightarrow> (f ^^ j) c = c"
  by (induction j) simp_all

lemma funpow_shift: "(f ^^ j) (f c) = (f ^^ Suc j) c"
  by (simp add: funpow_swap1)

text \<open>Nothing is found when no level has the marker.\<close>

lemma find_root_loop_none:
  "root_dir = None \<Longrightarrow> (\<forall>j. \<not> path_exists (join ((dirname ^^ j) cur_dir) name)) \<Longrightarrow>
     find_root_loop path_exists name find_first root_dir last_dir cur_dir = None"
proof (induction path_exists name find_first root_dir last_dir cur_dir
    rule: find_root_loop.induct)
  case (1 path_exists name find_first root_dir last_dir cur_dir)
  have no0: "\<not> path_exists (join cur_dir name)"
    using "1.prems"(2) [rule_format, of 0] by simp
  have up: "\<forall>j. \<not> path_exists (join ((dirname ^^ j) (dirname cur_dir)) name)"
  proof
    fix j
    show "\<not> path_exists (join ((dirname ^^ j) (dirname cur_dir)) name)"
      using "1.prems"(2) [rule_format, of "Suc j"] by (simp add: funpow_swap1)
  qed
  show ?case
  proof (cases "Some cur_dir \<noteq> last_dir")
    case True
    have "find_root_loop path_exists name find_first root_dir (Some cur_dir) (dirname cur_dir)
        = None"
      using "1.IH"(2) True no0 "1.prems"(1) up by simp
    then show ?thesis
      using True no0 "1.prems"(1) by (subst find_root_loop.simps) simp
  next
    case False
    then show ?thesis
      using "1.prems"(1) by (subst find_root_loop.simps) simp
  qed
qed

text \<open>Below the innermost level that has the marker the loop only walks up.\<close>

lemma find_root_loop_first:
  assumes "\<forall>j<k. \<not> path_exists (join ((dirname ^^ j) cur_dir) name)"
    and "path_exists (join ((dirname ^^ k) cur_dir) name)"
    and "last_dir = None \<or>
         (\<exists>l. last_dir = Some l \<and> cur_dir = dirname l \<and> \<not> path_exists (join l name))"
  shows "find_root_loop path_exists name find_first None last_dir cur_dir =
           (if find_first then Some ((dirname ^^ k) cur_dir)
            else find_root_loop path_exists name find_first
                   (Some ((dirname ^^ k) cur_dir)) (Some ((dirname ^^ k) cur_dir))
                   (dirname ((dirname ^^ k) cur_dir)))"
  using assms
proof (induction k arbitrary: cur_dir last_dir)
  case 0
  then have here: "path_exists (join cur_dir name)" by simp
  with "0.prems"(3) have "Some cur_dir \<noteq> last_dir" by auto
  then show ?case
    using here by (subst find_root_loop.simps) simp
next
  case (Suc k)
  have no0: "\<not> path_exists (join cur_dir name)"
    using Suc.prems(1) [rule_format, of 0] by simp
  have ne: "Some cur_dir \<noteq> last_dir"
  proof
    assume eq: "Some cur_dir = last_dir"
    with Suc.prems(3) have "dirname cur_dir = cur_dir" by auto
    then have "(dirname ^^ Suc k) cur_dir = cur_dir" by (rule funpow_fixed)
    with Suc.prems(2) no0 show False by simp
  qed
  have below: "\<forall>j<k. \<not> path_exists (join ((dirname ^^ j) (dirname cur_dir)) name)"
  proof (intro allI impI)
    fix j assume "j < k"
    then have "Suc j < Suc k" by simp
    then show "\<not> path_exists (join ((dirname ^^ j) (dirname cur_dir)) name)"
      using Suc.prems(1) [rule_format, of "Suc j"] by (simp add: funpow_swap1)
  qed
  have at: "path_exists (join ((dirname ^^ k) (dirname cur_dir)) name)"
    using Suc.prems(2) by (simp add: funpow_swap1)
  have inv: "Some cur_dir = None \<or>
      (\<exists>l. Some cur_dir = Some l \<and> dirname cur_dir = dirname l \<and> \<not> path_exists (join l name))"
    using no0 by simp
  have step: "find_root_loop path_exists name find_first None last_dir cur_dir =
      find_root_loop path_exists name find_first None (Some cur_dir) (dirname cur_dir)"
    using ne no0 by (subst find_root_loop.simps) simp
  show ?case
    unfolding step using Suc.IH [OF below at inv] by (simp add: funpow_swap1)
qed

text \<open>With \<^verbatim>\<open>find_first\<close> false, once a level has the marker the loop climbs while the
  levels above have it too, and stops at the first level without it or at the top.\<close>

lemma find_root_loop_climb:
  assumes "\<forall>j\<le>m. path_exists (join ((dirname ^^ j) l) name)"
    and "\<not> path_exists (join ((dirname ^^ Suc m) l) name) \<or>
         (dirname ^^ Suc m) l = (dirname ^^ m) l"
  shows "find_root_loop path_exists name False (Some l) (Some l) (dirname l) =
           Some ((dirname ^^ m) l)"
  using assms
proof (induction m arbitrary: l)
  case 0
  then have "\<not> path_exists (join (dirname l) name) \<or> dirname l = l" by simp
  then show ?case by (subst find_root_loop.simps) auto
next
  case (Suc m)
  show ?case
  proof (cases "dirname l = l")
    case True
    then have "(dirname ^^ Suc m) l = l" by (rule funpow_fixed)
    then show ?thesis using True by (subst find_root_loop.simps) simp
  next
    case False
    have m1: "path_exists (join (dirname l) name)"
      using Suc.prems(1) [rule_format, of "Suc 0"] by simp
    have above: "\<forall>j\<le>m. path_exists (join ((dirname ^^ j) (dirname l)) name)"
    proof (intro allI impI)
      fix j assume "j \<le> m"
      then have "Suc j \<le> Suc m" by simp
      then show "path_exists (join ((dirname ^^ j) (dirname l)) name)"
        using Suc.prems(1) [rule_format, of "Suc j"] by (simp add: funpow_swap1)
    qed
    have stop: "\<not> path_exists (join ((dirname ^^ Suc m) (dirname l)) name) \<or>
        (dirname ^^ Suc m) (dirname l) = (dirname ^^ m) (dirname l)"
      using Suc.prems(2) by (simp add: funpow_swap1)
    have step: "find_root_loop path_exists name False (Some l) (Some l) (dirname l) =
        find_root_loop path_exists name False (Some (dirname l)) (Some (dirname l))
          (dirname (dirname l))"
      using False m1 by (subst find_root_loop.simps) simp
    show ?thesis
      unfolding step using Suc.IH [OF above stop] by (simp add: funpow_swap1)
  qed
qed

lemma find_root_not_found:
  assumes "\<forall>j. \<not> path_exists (join (ancestor isdir path j) name)"
  shows "find_root isdir path_exists name path find_first =
           Inl (RepositoryNotFoundError (''Unable to find '' @ name @ '' directory''))"
proof -
  have "find_root_loop path_exists name find_first None None
          (if isdir path then path else dirname path) = None"
    using assms unfolding ancestor_def by (intro find_root_loop_none) simp_all
  then show ?thesis by (simp add: find_root_def)
qed

lemma find_root_innermost:
  assumes "\<forall>j<k. \<not> path_exists (join (ancestor isdir path j) name)"
    and "path_exists (join (ancestor isdir path k) name)"
  shows "find_root isdir path_exists name path True = Inr (ancestor isdir path k)"
proof -
  have "find_root_loop path_exists name True None None
          (if isdir path then path else dirname path) =
        Some ((dirname ^^ k) (if isdir path then path else dirname path))"
    using find_root_loop_first [of k path_exists "if isdir path then path else dirname path"
        name None True] assms
    unfolding ancestor_def by simp
  then show ?thesis by (simp add: find_root_def ancestor_def)
qed

lemma find_root_last_of_run:
  assumes "\<forall>j<k. \<not> path_exists (join (ancestor isdir path j) name)"
    and "k \<le> n"
    and "\<forall>j. k \<le> j \<and> j \<le> n \<longrightarrow> path_exists (join (ancestor isdir path j) name)"
    and "\<not> path_exists (join (ancestor isdir path (Suc n)) name) \<or>
         ancestor isdir path (Suc n) = ancestor isdir path n"
  shows "find_root isdir path_exists name path False = Inr (ancestor isdir path n)"
proof -
  let ?s = "if isdir path then path else dirname path"
  let ?l = "(dirname ^^ k) ?s"
  have shift: "\<And>j. (dirname ^^ j) ?l = ancestor isdir path (j + k)"
    unfolding ancestor_def by (simp only: funpow_add o_apply)
  have atk: "path_exists (join ((dirname ^^ k) ?s) name)"
    using assms(2,3) unfolding ancestor_def by simp
  have first: "find_root_loop path_exists name False None None ?s =
      find_root_loop path_exists name False (Some ?l) (Some ?l) (dirname ?l)"
    using find_root_loop_first [of k path_exists ?s name None False] assms(1) atk
    unfolding ancestor_def by simp
  have run: "\<forall>j\<le>n - k. path_exists (join ((dirname ^^ j) ?l) name)"
  proof (intro allI impI)
    fix j assume "j \<le> n - k"
    then have "k \<le> j + k \<and> j + k \<le> n" using assms(2) by simp
    then show "path_exists (join ((dirname ^^ j) ?l) name)"
      using assms(3) by (simp only: shift)
  qed
  have nk: "Suc (n - k) + k = Suc n" "n - k + k = n" using assms(2) by simp_all
  have stop: "\<not> path_exists (join ((dirname ^^ Suc (n - k)) ?l) name) \<or>
      (dirname ^^ Suc (n - k)) ?l = (dirname ^^ (n - k)) ?l"
    using assms(4) by (simp only: shift nk)
  have "find_root_loop path_exists name False (Some ?l) (Some ?l) (dirname ?l) =
      Some ((dirname ^^ (n - k)) ?l)"
    using run stop by (rule find_root_loop_climb)
  then have "find_root_loop path_exists name False None None ?s = Some (ancestor isdir path n)"
    using first by (simp only: shift nk)
  then show ?thesis by (simp add: find_root_def)
qed

section \<open>The root locator\<close>

text \<open>
  Claim C3: when the levels \<open>k\<close> to \<open>n\<close> above the starting path all contain the
  marker (\<open>k = 0\<close> when the start directory itself has it, the levels below \<open>k\<close> do
  not), and level \<open>n + 1\<close> lacks it or level \<open>n\<close> is the top of the file system, then
  \<^verbatim>\<open>find_root\<close> with \<^verbatim>\<open>find_first\<close> false returns level \<open>n\<close>, the outermost of the
  run, while with \<^verbatim>\<open>find_first\<close> true it returns level \<open>k\<close>, the innermost. When no
  level contains the marker, \<^verbatim>\<open>find_root\<close> raises \<^verbatim>\<open>RepositoryNotFoundError\<close>.
\<close>

theorem find_root_outermost:
  "((\<forall>j<k. \<not> path_exists (join (ancestor isdir path j) name)) \<and> k \<le> n \<and>
    (\<forall>j. k \<le> j \<and> j \<le> n \<longrightarrow> path_exists (join (ancestor isdir path j) name)) \<and>
    (\<not> path_exists (join (ancestor isdir path (Suc n)) name) \<or>
     ancestor isdir path (Suc n) = ancestor isdir path n)
    \<longrightarrow> find_root isdir path_exists name path False = Inr (ancestor isdir path n) \<and>
        find_root isdir path_exists name path True = Inr (ancestor isdir path k)) \<and>
   ((\<forall>j. \<not> path_exists (join (ancestor isdir path j) name))
    \<longrightarrow> find_root isdir path_exists name path find_first =
        Inl (RepositoryNotFoundError (''Unable to find '' @ name @ '' directory'')))"
proof (intro conjI impI)
  assume a: "(\<forall>j<k. \<not> path_exists (join (ancestor isdir path j) name)) \<and> k \<le> n \<and>
    (\<forall>j. k \<le> j \<and> j \<le> n \<longrightarrow> path_exists (join (ancestor isdir path j) name)) \<and>
    (\<not> path_exists (join (ancestor isdir path (Suc n)) name) \<or>
     ancestor isdir path (Suc n) = ancestor isdir path n)"
  then show "find_root isdir path_exists name path False = Inr (ancestor isdir path n)"
    by (intro find_root_last_of_run [of k path_exists isdir path name n]) blast+
  from a have "path_exists (join (ancestor isdir path k) name)" by blast
  with a show "find_root isdir path_exists name path True = Inr (ancestor isdir path k)"
    by (intro find_root_innermost) blast+
next
  assume "\<forall>j. \<not> path_exists (join (ancestor isdir path j) name)"
  then show "find_root isdir path_exists name path find_first =
      Inl (RepositoryNotFoundError (''Unable to find '' @ name @ '' directory''))"
    by (rule find_root_not_found)
qed

theorem find_root_outermost_witness:
  "find_root (\<lambda>p. False) svn_everywhere ''.svn'' main_c False = Inr ws_dir \<and>
   find_root (\<lambda>p. False) svn_everywhere ''.svn'' main_c True = Inr src_dir \<and>
   find_root (\<lambda>p. False) (\<lambda>p. False) ''.svn'' main_c False =
     Inl (RepositoryNotFoundError ''Unable to find .svn directory'')"
proof -
  have a0: "ancestor (\<lambda>p. False) main_c 0 = src_dir"
    by (simp add: ancestor_def dirname_def splitdrive_def is_sep_def Let_def)
  have a1: "ancestor (\<lambda>p. False) main_c (Suc 0) = proj_dir"
    by (simp add: ancestor_def dirname_def splitdrive_def is_sep_def Let_def)
  have a2: "ancestor (\<lambda>p. False) main_c (Suc (Suc 0)) = ws_dir"
    by (simp add: ancestor_def dirname_def splitdrive_def is_sep_def Let_def)
  have a3: "ancestor (\<lambda>p. False) main_c (Suc (Suc (Suc 0))) = ''C:'' @ [BSLASH]"
    by (simp add: ancestor_def dirname_def splitdrive_def is_sep_def Let_def)
  have m0: "svn_everywhere (join src_dir ''.svn'')"
    by (simp add: join_def splitdrive_def is_sep_def)
  have m1: "svn_everywhere (join proj_dir ''.svn'')"
    by (simp add: join_def splitdrive_def is_sep_def)
  have m2: "svn_everywhere (join ws_dir ''.svn'')"
    by (simp add: join_def splitdrive_def is_sep_def)
  have m3: "\<not> svn_everywhere (join (''C:'' @ [BSLASH]) ''.svn'')"
    by (simp add: join_def splitdrive_def is_sep_def)
  have run: "\<forall>j. 0 \<le> j \<and> j \<le> Suc (Suc 0) \<longrightarrow>
      svn_everywhere (join (ancestor (\<lambda>p. False) main_c j) ''.svn'')"
  proof (intro allI impI)
    fix j :: nat assume "0 \<le> j \<and> j \<le> Suc (Suc 0)"
    then have "j = 0 \<or> j = Suc 0 \<or> j = Suc (Suc 0)" by arith
    then show "svn_everywhere (join (ancestor (\<lambda>p. False) main_c j) ''.svn'')"
    proof (elim disjE)
      assume j: "j = 0" show ?thesis unfolding j a0 by (rule m0)
    next
      assume j: "j = Suc 0" show ?thesis unfolding j a1 by (rule m1)
    next
      assume j: "j = Suc (Suc 0)" show ?thesis unfolding j a2 by (rule m2)
    qed
  qed
  have stop: "\<not> svn_everywhere (join (ancestor (\<lambda>p. False) main_c (Suc (Suc (Suc 0)))) ''.svn'')"
    unfolding a3 by (rule m3)
  have hyp: "(\<forall>j<0. \<not> svn_everywhere (join (ancestor (\<lambda>p. False) main_c j) ''.svn'')) \<and>
      0 \<le> Suc (Suc 0) \<and>
      (\<forall>j. 0 \<le> j \<and> j \<le> Suc (Suc 0) \<longrightarrow>
          svn_everywhere (join (ancestor (\<lambda>p. False) main_c j) ''.svn'')) \<and>
      (\<not> svn_everywhere (join (ancestor (\<lambda>p. False) main_c (Suc (Suc (Suc 0)))) ''.svn'') \<or>
       ancestor (\<lambda>p. False) main_c (Suc (Suc (Suc 0))) =
       ancestor (\<lambda>p. False) main_c (Suc (Suc 0)))"
    using run stop by blast
  have a: "find_root (\<lambda>p. False) svn_everywhere ''.svn'' main_c False =
             Inr (ancestor (\<lambda>p. False) main_c (Suc (Suc 0))) \<and>
           find_root (\<lambda>p. False) svn_everywhere ''.svn'' main_c True =
             Inr (ancestor (\<lambda>p. False) main_c 0)"
    using find_root_outermost [of 0 svn_everywhere "\<lambda>p. False" main_c "''.svn''" "Suc (Suc 0)"
        False] hyp by blast
  have b: "find_root (\<lambda>p. False) (\<lambda>p. False) ''.svn'' main_c False =
      Inl (RepositoryNotFoundError (''Unable to find '' @ ''.svn'' @ '' directory''))"
    using find_root_outermost [of 0 "\<lambda>p. False" "\<lambda>p. False" main_c "''.svn''" 0 False]
    by blast
  have msg: "''Unable to find '' @ ''.svn'' @ '' directory'' = ''Unable to find .svn directory''"
    by simp
  from a b show ?thesis unfolding a0 a2 msg by blast
qed

section \<open>The selector\<close>

lemma find_root_cases:
  "find_root isdir path_exists name path find_first =
     Inl (RepositoryNotFoundError (''Unable to find '' @ name @ '' directory'')) \<or>
   (\<exists>r. find_root isdir path_exists name path find_first = Inr r)"
  by (simp add: find_root_def split: option.splits)

lemma join_last: "b \<noteq> [] \<Longrightarrow> last (join a b) = last b"
  by (simp add: join_def split: prod.splits)

text \<open>What each constructor gives when its binary path is configured.\<close>

lemma TortoiseSVN_init_configured:
  "TortoiseSVN_init h isdir path_exists (Some b) path =
     (case find_root isdir path_exists ''.svn'' path False of
        Inl e \<Rightarrow> Inl e | Inr r \<Rightarrow> Inr (TortoiseSVN b r))"
  by (simp add: TortoiseSVN_init_def split: sum.splits)

lemma TortoiseGit_init_configured:
  "TortoiseGit_init h isdir path_exists (Some b) path =
     (case find_root isdir path_exists ''.git'' path True of
        Inl e \<Rightarrow> Inl e | Inr r \<Rightarrow> Inr (TortoiseGit b r))"
  by (simp add: TortoiseGit_init_def split: sum.splits)

lemma TortoiseHg_init_configured:
  "TortoiseHg_init h isdir path_exists (Some b) path =
     (case find_root isdir path_exists ''.hg'' path True of
        Inl e \<Rightarrow> Inl e | Inr r \<Rightarrow> Inr (TortoiseHg b r))"
  by (simp add: TortoiseHg_init_def split: sum.splits)

lemma init_not_found:
  assumes "\<forall>j. \<not> path_exists (join (ancestor isdir path j) ''.svn'')"
    and "\<forall>j. \<not> path_exists (join (ancestor isdir path j) ''.hg'')"
  shows "try_assign (TortoiseSVN_init h isdir path_exists bs path) v = Inr v"
    and "try_assign (TortoiseHg_init h isdir path_exists bh path) v = Inr v"
  using find_root_not_found [of path_exists isdir path "''.svn''" False]
    find_root_not_found [of path_exists isdir path "''.hg''" True] assms
  by (simp_all add: TortoiseSVN_init_def TortoiseHg_init_def)

text \<open>An attempt leaves \<^verbatim>\<open>get_vcs\<close> running unless it finds its marker while
  its binary path is unset.\<close>

lemma svn_attempt_passes:
  assumes "svn_tortoiseproc_path st = None \<longrightarrow>
             (\<forall>r. find_root isdir path_exists ''.svn'' path False \<noteq> Inr r)"
  shows "\<exists>v'. try_assign (TortoiseSVN_init h isdir path_exists (svn_tortoiseproc_path st) path) v
           = Inr v'"
proof (cases "svn_tortoiseproc_path st")
  case None
  with assms find_root_cases [of isdir path_exists "''.svn''" path False]
  have "find_root isdir path_exists ''.svn'' path False =
      Inl (RepositoryNotFoundError (''Unable to find '' @ ''.svn'' @ '' directory''))"
    by auto
  then show ?thesis using None by (simp add: TortoiseSVN_init_def)
next
  case (Some b)
  then show ?thesis
    using find_root_cases [of isdir path_exists "''.svn''" path False]
    by (auto simp: TortoiseSVN_init_configured)
qed

lemma git_attempt_passes:
  assumes "git_tortoiseproc_path st = None \<longrightarrow>
             (\<forall>r. find_root isdir path_exists ''.git'' path True \<noteq> Inr r)"
  shows "\<exists>v'. try_assign (TortoiseGit_init h isdir path_exists (git_tortoiseproc_path st) path) v
           = Inr v'"
proof (cases "git_tortoiseproc_path st")
  case None
  with assms find_root_cases [of isdir path_exists "''.git''" path True]
  have "find_root isdir path_exists ''.git'' path True =
      Inl (RepositoryNotFoundError (''Unable to find '' @ ''.git'' @ '' directory''))"
    by auto
  then show ?thesis using None by (simp add: TortoiseGit_init_def)
next
  case (Some b)
  then show ?thesis
    using find_root_cases [of isdir path_exists "''.git''" path True]
    by (auto simp: TortoiseGit_init_configured)
qed

text \<open>
  Claim C4, as the specification states it: for any path whose ancestors contain only a
  \<^verbatim>\<open>.git\<close> marker the selector returns the Git back end. With the setting
  \<^verbatim>\<open>git_tortoiseproc_path\<close> unset the constructor of the Git back end finds the root
  and then raises \<^verbatim>\<open>NotFoundError\<close> from \<^verbatim>\<open>set_binary_path\<close>; only
  \<^verbatim>\<open>RepositoryNotFoundError\<close> is skipped, so \<^verbatim>\<open>get_vcs\<close> raises and returns no
  back end.
\<close>

theorem get_vcs_unconfigured_counterexample:
  "get_vcs h0 (\<lambda>p. False) git_only st10 (Some main_c) =
     Inl (set_binary_path h0 ''TortoiseGit''
            (''TortoiseGit'' @ [BSLASH] @ ''bin'' @ [BSLASH] @ ''TortoiseProc.exe'')
            ''TortoiseProc.exe'' ''git_tortoiseproc_path'')"
  by (simp add: get_vcs_def TortoiseSVN_init_def TortoiseGit_init_def set_binary_path_def
      find_root_def find_root_loop.simps dirname_def splitdrive_def is_sep_def join_def Let_def)

text \<open>
  Claim C4, amended: the selector tries SVN, then Git, then Mercurial; an attempt that
  fails with \<^verbatim>\<open>RepositoryNotFoundError\<close> is skipped silently, and with the three binary
  paths configured the last attempt that succeeds wins (Mercurial over Git over SVN,
  \<^verbatim>\<open>NotFoundError\<close> when none succeeds). For a path whose ancestors contain only a
  \<^verbatim>\<open>.git\<close> marker, and with \<^verbatim>\<open>git_tortoiseproc_path\<close> configured, it returns the
  Git back end at the innermost level that has the marker. The first attempt, in that
  order, that finds its marker while its binary path is unset raises
  \<^verbatim>\<open>NotFoundError\<close> from \<^verbatim>\<open>set_binary_path\<close>; it is not skipped and leaves
  \<^verbatim>\<open>get_vcs\<close>, whichever of the three back ends it is.
\<close>

theorem get_vcs_last_success_wins:
  "(svn_tortoiseproc_path st = Some bs \<and> git_tortoiseproc_path st = Some bg \<and>
    hg_hgtk_path st = Some bh
    \<longrightarrow> get_vcs h isdir path_exists st (Some path) =
        (case find_root isdir path_exists ''.hg'' path True of
           Inr r \<Rightarrow> Inr (TortoiseHg bh r)
         | Inl e1 \<Rightarrow>
             (case find_root isdir path_exists ''.git'' path True of
                Inr r \<Rightarrow> Inr (TortoiseGit bg r)
              | Inl e2 \<Rightarrow>
                  (case find_root isdir path_exists ''.svn'' path False of
                     Inr r \<Rightarrow> Inr (TortoiseSVN bs r)
                   | Inl e3 \<Rightarrow>
                       Inl (NotFoundError
                              (''The current file does not appear to be in an '' @
                               ''SVN, Git or Mercurial working copy'')))))) \<and>
   (git_tortoiseproc_path st = Some bg \<and>
    (\<forall>j. \<not> path_exists (join (ancestor isdir path j) ''.svn'')) \<and>
    (\<forall>j. \<not> path_exists (join (ancestor isdir path j) ''.hg'')) \<and>
    (\<forall>j<k. \<not> path_exists (join (ancestor isdir path j) ''.git'')) \<and>
    path_exists (join (ancestor isdir path k) ''.git'')
    \<longrightarrow> get_vcs h isdir path_exists st (Some path) =
        Inr (TortoiseGit bg (ancestor isdir path k))) \<and>
   (svn_tortoiseproc_path st = None \<and>
    find_root isdir path_exists ''.svn'' path False = Inr r0
    \<longrightarrow> get_vcs h isdir path_exists st (Some path) =
        Inl (set_binary_path h ''TortoiseSVN''
               (''TortoiseSVN'' @ [BSLASH] @ ''bin'' @ [BSLASH] @ ''TortoiseProc.exe'')
               ''TortoiseProc.exe'' ''svn_tortoiseproc_path'')) \<and>
   ((svn_tortoiseproc_path st = None \<longrightarrow>
       (\<forall>r. find_root isdir path_exists ''.svn'' path False \<noteq> Inr r)) \<and>
    git_tortoiseproc_path st = None \<and>
    find_root isdir path_exists ''.git'' path True = Inr r1
    \<longrightarrow> get_vcs h isdir path_exists st (Some path) =
        Inl (set_binary_path h ''TortoiseGit''
               (''TortoiseGit'' @ [BSLASH] @ ''bin'' @ [BSLASH] @ ''TortoiseProc.exe'')
               ''TortoiseProc.exe'' ''git_tortoiseproc_path'')) \<and>
   ((svn_tortoiseproc_path st = None \<longrightarrow>
       (\<forall>r. find_root isdir path_exists ''.svn'' path False \<noteq> Inr r)) \<and>
    (git_tortoiseproc_path st = None \<longrightarrow>
       (\<forall>r. find_root isdir path_exists ''.git'' path True \<noteq> Inr r)) \<and>
    hg_hgtk_path st = None \<and>
    find_root isdir path_exists ''.hg'' path True = Inr r2
    \<longrightarrow> get_vcs h isdir path_exists st (Some path) =
        Inl (set_binary_path h ''TortoiseHg'' (''TortoiseHg'' @ [BSLASH] @ ''hgtk.exe'')
               (''thgw.exe (for TortoiseHg v2.x) or hgtk.exe (for '' @ ''TortoiseHg v1.x)'')
               ''hg_hgtk_path''))"
proof (intro conjI impI)
  assume a: "svn_tortoiseproc_path st = Some bs \<and> git_tortoiseproc_path st = Some bg \<and>
    hg_hgtk_path st = Some bh"
  show "get_vcs h isdir path_exists st (Some path) =
        (case find_root isdir path_exists ''.hg'' path True of
           Inr r \<Rightarrow> Inr (TortoiseHg bh r)
         | Inl e1 \<Rightarrow>
             (case find_root isdir path_exists ''.git'' path True of
                Inr r \<Rightarrow> Inr (TortoiseGit bg r)
              | Inl e2 \<Rightarrow>
                  (case find_root isdir path_exists ''.svn'' path False of
                     Inr r \<Rightarrow> Inr (TortoiseSVN bs r)
                   | Inl e3 \<Rightarrow>
                       Inl (NotFoundError
                              (''The current file does not appear to be in an '' @
                               ''SVN, Git or Mercurial working copy'')))))"
    using a find_root_cases [of isdir path_exists "''.svn''" path False]
      find_root_cases [of isdir path_exists "''.git''" path True]
      find_root_cases [of isdir path_exists "''.hg''" path True]
    unfolding get_vcs_def
    by (auto simp: TortoiseSVN_init_configured TortoiseGit_init_configured
        TortoiseHg_init_configured)
next
  assume a: "git_tortoiseproc_path st = Some bg \<and>
    (\<forall>j. \<not> path_exists (join (ancestor isdir path j) ''.svn'')) \<and>
    (\<forall>j. \<not> path_exists (join (ancestor isdir path j) ''.hg'')) \<and>
    (\<forall>j<k. \<not> path_exists (join (ancestor isdir path j) ''.git'')) \<and>
    path_exists (join (ancestor isdir path k) ''.git'')"
  then have svn: "\<And>v. try_assign (TortoiseSVN_init h isdir path_exists
        (svn_tortoiseproc_path st) path) v = Inr v"
    and hg: "\<And>v. try_assign (TortoiseHg_init h isdir path_exists (hg_hgtk_path st) path) v = Inr v"
    using init_not_found [of path_exists isdir path h] by blast+
  have "find_root isdir path_exists ''.git'' path True = Inr (ancestor isdir path k)"
    using a by (intro find_root_innermost) blast+
  then have git: "\<And>v. try_assign (TortoiseGit_init h isdir path_exists
        (git_tortoiseproc_path st) path) v = Inr (Some (TortoiseGit bg (ancestor isdir path k)))"
    using a by (simp add: TortoiseGit_init_configured)
  show "get_vcs h isdir path_exists st (Some path) =
        Inr (TortoiseGit bg (ancestor isdir path k))"
    unfolding get_vcs_def by (simp add: svn git hg)
next
  assume "svn_tortoiseproc_path st = None \<and>
    find_root isdir path_exists ''.svn'' path False = Inr r0"
  then show "get_vcs h isdir path_exists st (Some path) =
        Inl (set_binary_path h ''TortoiseSVN''
               (''TortoiseSVN'' @ [BSLASH] @ ''bin'' @ [BSLASH] @ ''TortoiseProc.exe'')
               ''TortoiseProc.exe'' ''svn_tortoiseproc_path'')"
    by (simp add: get_vcs_def TortoiseSVN_init_def set_binary_path_def)
next
  assume a: "(svn_tortoiseproc_path st = None \<longrightarrow>
       (\<forall>r. find_root isdir path_exists ''.svn'' path False \<noteq> Inr r)) \<and>
    git_tortoiseproc_path st = None \<and>
    find_root isdir path_exists ''.git'' path True = Inr r1"
  obtain v1 where s1: "try_assign (TortoiseSVN_init h isdir path_exists
        (svn_tortoiseproc_path st) path) None = Inr v1"
    using svn_attempt_passes [of st isdir path_exists path h None] a by blast
  show "get_vcs h isdir path_exists st (Some path) =
        Inl (set_binary_path h ''TortoiseGit''
               (''TortoiseGit'' @ [BSLASH] @ ''bin'' @ [BSLASH] @ ''TortoiseProc.exe'')
               ''TortoiseProc.exe'' ''git_tortoiseproc_path'')"
    unfolding get_vcs_def using a by (simp add: s1 TortoiseGit_init_def set_binary_path_def)
next
  assume a: "(svn_tortoiseproc_path st = None \<longrightarrow>
       (\<forall>r. find_root isdir path_exists ''.svn'' path False \<noteq> Inr r)) \<and>
    (git_tortoiseproc_path st = None \<longrightarrow>
       (\<forall>r. find_root isdir path_exists ''.git'' path True \<noteq> Inr r)) \<and>
    hg_hgtk_path st = None \<and>
    find_root isdir path_exists ''.hg'' path True = Inr r2"
  obtain v1 where s1: "try_assign (TortoiseSVN_init h isdir path_exists
        (svn_tortoiseproc_path st) path) None = Inr v1"
    using svn_attempt_passes [of st isdir path_exists path h None] a by blast
  obtain v2 where s2: "try_assign (TortoiseGit_init h isdir path_exists
        (git_tortoiseproc_path st) path) v1 = Inr v2"
    using git_attempt_passes [of st isdir path_exists path h v1] a by blast
  show "get_vcs h isdir path_exists st (Some path) =
        Inl (set_binary_path h ''TortoiseHg'' (''TortoiseHg'' @ [BSLASH] @ ''hgtk.exe'')
               (''thgw.exe (for TortoiseHg v2.x) or hgtk.exe (for '' @ ''TortoiseHg v1.x)'')
               ''hg_hgtk_path'')"
    unfolding get_vcs_def using a by (simp add: s1 s2 TortoiseHg_init_def set_binary_path_def)
qed

theorem get_vcs_last_success_wins_witness:
  "get_vcs h0 (\<lambda>p. False) git_and_hg st_paths (Some main_c) = Inr (TortoiseHg ''thgw.exe'' proj_dir) \<and>
   get_vcs h0 (\<lambda>p. False) git_only st_paths (Some main_c) = Inr (TortoiseGit ''gitproc.exe'' ws_dir) \<and>
   get_vcs h0 (\<lambda>p. False) svn_everywhere st10 (Some main_c) =
     Inl (set_binary_path h0 ''TortoiseSVN''
            (''TortoiseSVN'' @ [BSLASH] @ ''bin'' @ [BSLASH] @ ''TortoiseProc.exe'')
            ''TortoiseProc.exe'' ''svn_tortoiseproc_path'') \<and>
   get_vcs h0 (\<lambda>p. False) git_only st10 (Some main_c) =
     Inl (set_binary_path h0 ''TortoiseGit''
               (''TortoiseGit'' @ [BSLASH] @ ''bin'' @ [BSLASH] @ ''TortoiseProc.exe'')
               ''TortoiseProc.exe'' ''git_tortoiseproc_path'') \<and>
   get_vcs h0 (\<lambda>p. False) git_and_hg st_no_hg (Some main_c) =
     Inl (set_binary_path h0 ''TortoiseHg'' (''TortoiseHg'' @ [BSLASH] @ ''hgtk.exe'')
               (''thgw.exe (for TortoiseHg v2.x) or hgtk.exe (for '' @ ''TortoiseHg v1.x)'')
               ''hg_hgtk_path'')"
proof -
  have hyp_a: "svn_tortoiseproc_path st_paths = Some ''svnproc.exe'' \<and>
      git_tortoiseproc_path st_paths = Some ''gitproc.exe'' \<and>
      hg_hgtk_path st_paths = Some ''thgw.exe''"
    by simp
  have fa: "find_root (\<lambda>p. False) git_and_hg ''.hg'' main_c True = Inr proj_dir"
    by (simp add: find_root_def find_root_loop.simps dirname_def splitdrive_def is_sep_def
        join_def Let_def)
  have a': "get_vcs h0 (\<lambda>p. False) git_and_hg st_paths (Some main_c) =
        (case find_root (\<lambda>p. False) git_and_hg ''.hg'' main_c True of
           Inr r \<Rightarrow> Inr (TortoiseHg ''thgw.exe'' r)
         | Inl e1 \<Rightarrow>
             (case find_root (\<lambda>p. False) git_and_hg ''.git'' main_c True of
                Inr r \<Rightarrow> Inr (TortoiseGit ''gitproc.exe'' r)
              | Inl e2 \<Rightarrow>
                  (case find_root (\<lambda>p. False) git_and_hg ''.svn'' main_c False of
                     Inr r \<Rightarrow> Inr (TortoiseSVN ''svnproc.exe'' r)
                   | Inl e3 \<Rightarrow>
                       Inl (NotFoundError
                              (''The current file does not appear to be in an '' @
                               ''SVN, Git or Mercurial working copy'')))))"
    using get_vcs_last_success_wins [of st_paths "''svnproc.exe''" "''gitproc.exe''" "''thgw.exe''"
        h0 "\<lambda>p. False" git_and_hg main_c 0 "[]"] hyp_a
    by blast
  have a: "get_vcs h0 (\<lambda>p. False) git_and_hg st_paths (Some main_c) =
      Inr (TortoiseHg ''thgw.exe'' proj_dir)"
    unfolding a' fa by simp
  have a2: "ancestor (\<lambda>p. False) main_c (Suc (Suc 0)) = ws_dir"
    by (simp add: ancestor_def dirname_def splitdrive_def is_sep_def Let_def)
  have no_svn: "\<forall>j. \<not> git_only (join (ancestor (\<lambda>p. False) main_c j) ''.svn'')"
  proof (intro allI notI)
    fix j assume "git_only (join (ancestor (\<lambda>p. False) main_c j) ''.svn'')"
    then have "last (join (ancestor (\<lambda>p. False) main_c j) ''.svn'') =
        last (ws_dir @ [BSLASH] @ ''.git'')" by simp
    then show False by (simp add: join_last)
  qed
  have no_hg: "\<forall>j. \<not> git_only (join (ancestor (\<lambda>p. False) main_c j) ''.hg'')"
  proof (intro allI notI)
    fix j assume "git_only (join (ancestor (\<lambda>p. False) main_c j) ''.hg'')"
    then have "last (join (ancestor (\<lambda>p. False) main_c j) ''.hg'') =
        last (ws_dir @ [BSLASH] @ ''.git'')" by simp
    then show False by (simp add: join_last)
  qed
  have below: "\<forall>j<Suc (Suc 0). \<not> git_only (join (ancestor (\<lambda>p. False) main_c j) ''.git'')"
  proof (intro allI impI)
    fix j :: nat assume "j < Suc (Suc 0)"
    then have "j = 0 \<or> j = Suc 0" by arith
    then show "\<not> git_only (join (ancestor (\<lambda>p. False) main_c j) ''.git'')"
      by (elim disjE)
        (simp_all add: ancestor_def dirname_def splitdrive_def is_sep_def join_def Let_def)
  qed
  have at: "git_only (join (ancestor (\<lambda>p. False) main_c (Suc (Suc 0))) ''.git'')"
    by (simp add: ancestor_def dirname_def splitdrive_def is_sep_def join_def Let_def)
  have hyp_b: "git_tortoiseproc_path st_paths = Some ''gitproc.exe'' \<and>
      (\<forall>j. \<not> git_only (join (ancestor (\<lambda>p. False) main_c j) ''.svn'')) \<and>
      (\<forall>j. \<not> git_only (join (ancestor (\<lambda>p. False) main_c j) ''.hg'')) \<and>
      (\<forall>j<Suc (Suc 0). \<not> git_only (join (ancestor (\<lambda>p. False) main_c j) ''.git'')) \<and>
      git_only (join (ancestor (\<lambda>p. False) main_c (Suc (Suc 0))) ''.git'')"
    using no_svn no_hg below at by simp
  have b: "get_vcs h0 (\<lambda>p. False) git_only st_paths (Some main_c) =
      Inr (TortoiseGit ''gitproc.exe'' (ancestor (\<lambda>p. False) main_c (Suc (Suc 0))))"
    using get_vcs_last_success_wins [of st_paths "''svnproc.exe''" "''gitproc.exe''" "''thgw.exe''"
        h0 "\<lambda>p. False" git_only main_c "Suc (Suc 0)" "[]"] hyp_b
    by blast
  have hyp_c: "svn_tortoiseproc_path st10 = None \<and>
      find_root (\<lambda>p. False) svn_everywhere ''.svn'' main_c False = Inr ws_dir"
    by (simp add: find_root_def find_root_loop.simps dirname_def splitdrive_def is_sep_def
        join_def Let_def)
  have c: "get_vcs h0 (\<lambda>p. False) svn_everywhere st10 (Some main_c) =
     Inl (set_binary_path h0 ''TortoiseSVN''
            (''TortoiseSVN'' @ [BSLASH] @ ''bin'' @ [BSLASH] @ ''TortoiseProc.exe'')
            ''TortoiseProc.exe'' ''svn_tortoiseproc_path'')"
    using get_vcs_last_success_wins [of st10 "[]" "[]" "[]"
        h0 "\<lambda>p. False" svn_everywhere main_c 0 ws_dir] hyp_c
    by blast
  have hyp_d: "(svn_tortoiseproc_path st10 = None \<longrightarrow>
        (\<forall>r. find_root (\<lambda>p. False) git_only ''.svn'' main_c False \<noteq> Inr r)) \<and>
      git_tortoiseproc_path st10 = None \<and>
      find_root (\<lambda>p. False) git_only ''.git'' main_c True = Inr ws_dir"
    by (simp add: find_root_def find_root_loop.simps dirname_def splitdrive_def is_sep_def
        join_def Let_def)
  have d: "get_vcs h0 (\<lambda>p. False) git_only st10 (Some main_c) =
     Inl (set_binary_path h0 ''TortoiseGit''
               (''TortoiseGit'' @ [BSLASH] @ ''bin'' @ [BSLASH] @ ''TortoiseProc.exe'')
               ''TortoiseProc.exe'' ''git_tortoiseproc_path'')"
    using get_vcs_last_success_wins [of st10 "[]" "[]" "[]"
        h0 "\<lambda>p. False" git_only main_c 0 "[]" ws_dir "[]"] hyp_d
    by blast
  have hyp_e: "(svn_tortoiseproc_path st_no_hg = None \<longrightarrow>
        (\<forall>r. find_root (\<lambda>p. False) git_and_hg ''.svn'' main_c False \<noteq> Inr r)) \<and>
      (git_tortoiseproc_path st_no_hg = None \<longrightarrow>
        (\<forall>r. find_root (\<lambda>p. False) git_and_hg ''.git'' main_c True \<noteq> Inr r)) \<and>
      hg_hgtk_path st_no_hg = None \<and>
      find_root (\<lambda>p. False) git_and_hg ''.hg'' main_c True = Inr proj_dir"
    by (simp add: find_root_def find_root_loop.simps dirname_def splitdrive_def is_sep_def
        join_def Let_def)
  have e: "get_vcs h0 (\<lambda>p. False) git_and_hg st_no_hg (Some main_c) =
     Inl (set_binary_path h0 ''TortoiseHg'' (''TortoiseHg'' @ [BSLASH] @ ''hgtk.exe'')
               (''thgw.exe (for TortoiseHg v2.x) or hgtk.exe (for '' @ ''TortoiseHg v1.x)'')
               ''hg_hgtk_path'')"
    using get_vcs_last_success_wins [of st_no_hg "[]" "[]" "[]"
        h0 "\<lambda>p. False" git_and_hg main_c 0 "[]" "[]" proj_dir] hyp_e
    by blast
  from a b c d e show ?thesis unfolding a2 by blast
qed

section \<open>The file search\<close>

lemma last_hit_append: "last_hit (a @ b) match = last_hit b (last_hit a match)"
  by (simp add: last_hit_def)

lemma join_nonempty: "b \<noteq> [] \<Longrightarrow> join a b \<noteq> []"
  by (simp add: join_def split: prod.splits)

lemma search_names_first:
  assumes "\<forall>n\<in>set ns. n \<noteq> []"
  shows "search_names walk_root ns match = last_hit (map (join walk_root) (take 1 ns)) match"
proof (cases ns)
  case Nil
  then show ?thesis by (simp add: last_hit_def)
next
  case (Cons n rest)
  with assms have "join walk_root n \<noteq> []" by (simp add: join_nonempty)
  with Cons show ?thesis by (simp add: last_hit_def Let_def)
qed

lemma ffilter_names_nonempty:
  "normcase [] \<noteq> normcase pat \<Longrightarrow> \<forall>n\<in>set (ffilter normcase names pat). n \<noteq> []"
  by (auto simp: ffilter_def)

lemma search_walk_hits:
  assumes "normcase [] \<noteq> normcase ''git.exe''"
  shows "search_walk normcase ts match =
           last_hit (concat (map (\<lambda>(walk_root, dirnames, filenames).
                      map (join walk_root) (take 1 (ffilter normcase filenames ''git.exe''))) ts))
             match"
proof (induction ts arbitrary: match)
  case Nil
  show ?case by (simp add: last_hit_def)
next
  case (Cons t ts)
  obtain walk_root dirnames filenames where t: "t = (walk_root, dirnames, filenames)"
    by (cases t)
  have "search_names walk_root (ffilter normcase filenames ''git.exe'') match =
      last_hit (map (join walk_root) (take 1 (ffilter normcase filenames ''git.exe''))) match"
    using ffilter_names_nonempty [OF assms] by (rule search_names_first)
  then show ?case
    unfolding t by (simp add: Cons.IH last_hit_append)
qed

lemma search_dirs_hits:
  assumes "normcase [] \<noteq> normcase ''git.exe''"
  shows "search_dirs isdir walk normcase dirs match =
           last_hit (git_exe_hits isdir walk normcase dirs) match"
proof (induction dirs arbitrary: match)
  case Nil
  show ?case by (simp add: last_hit_def git_exe_hits_def)
next
  case (Cons d dirs)
  show ?case
  proof (cases "isdir d")
    case True
    then show ?thesis
      using Cons.IH [of "search_walk normcase (walk d) match"]
      by (simp add: search_walk_hits [OF assms] git_exe_hits_def last_hit_append)
  next
    case False
    then show ?thesis
      using Cons.IH [of match] by (simp add: git_exe_hits_def)
  qed
qed

lemma search_walk_no_name:
  "\<forall>(walk_root, dirnames, filenames)\<in>set ts.
      \<forall>n\<in>set filenames. normcase n \<noteq> normcase ''git.exe'' \<Longrightarrow>
     search_walk normcase ts match = match"
proof (induction ts arbitrary: match)
  case Nil
  show ?case by simp
next
  case (Cons t ts)
  obtain walk_root dirnames filenames where t: "t = (walk_root, dirnames, filenames)"
    by (cases t)
  from Cons.prems t have "ffilter normcase filenames ''git.exe'' = []"
    by (auto simp: ffilter_def filter_empty_conv)
  moreover from Cons.prems have "search_walk normcase ts match = match"
    by (intro Cons.IH) simp
  ultimately show ?case unfolding t by simp
qed

lemma search_dirs_nothing:
  "\<forall>path\<in>set dirs. isdir path \<longrightarrow>
      (\<forall>(walk_root, dirnames, filenames)\<in>set (walk path).
          \<forall>n\<in>set filenames. normcase n \<noteq> normcase ''git.exe'') \<Longrightarrow>
     search_dirs isdir walk normcase dirs match = match"
proof (induction dirs arbitrary: match)
  case Nil
  show ?case by simp
next
  case (Cons d dirs)
  from Cons.prems have rest: "search_dirs isdir walk normcase dirs match = match"
    by (intro Cons.IH) simp
  show ?case
  proof (cases "isdir d")
    case True
    with Cons.prems have "search_walk normcase (walk d) match = match"
      by (intro search_walk_no_name) simp
    with True rest show ?thesis by simp
  next
    case False
    with rest show ?thesis by simp
  qed
qed

lemma git_exe_hits_origin:
  assumes "m \<in> set (git_exe_hits isdir walk normcase dirs)"
  shows "\<exists>path\<in>set dirs. isdir path \<and>
           (\<exists>(walk_root, dirnames, filenames)\<in>set (walk path).
              \<exists>n\<in>set filenames. normcase n = normcase ''git.exe'' \<and> m = join walk_root n)"
proof -
  from assms obtain path walk_root dirnames filenames n where
    p: "path \<in> set dirs" "isdir path" "(walk_root, dirnames, filenames) \<in> set (walk path)"
      "n \<in> set (take 1 (ffilter normcase filenames ''git.exe''))" "m = join walk_root n"
    unfolding git_exe_hits_def by auto
  from p(4) have "n \<in> set (ffilter normcase filenames ''git.exe'')" by (rule in_set_takeD)
  then have "n \<in> set filenames" "normcase n = normcase ''git.exe''"
    by (simp_all add: ffilter_def)
  with p show ?thesis by blast
qed

text \<open>
  Claim C10, as the specification states it: \<^verbatim>\<open>search_file\<close> matches only files
  literally named \<^verbatim>\<open>git.exe\<close>. The names are compared by \<^verbatim>\<open>fnmatch.filter\<close>, after
  \<^verbatim>\<open>os.path.normcase\<close>; on Windows, the platform of the plugin, that comparison
  ignores the case of letters, so a file named \<^verbatim>\<open>GIT.EXE\<close> matches and its path is
  returned.
\<close>

theorem search_file_upper_case_counterexample:
  "search_file (\<lambda>p. p = progs) walk_upper ntpath_normcase ''git.exe'' [progs] =
     Some (progs @ [BSLASH] @ ''Git'' @ [BSLASH] @ ''GIT.EXE'')"
  by (simp add: search_file_def ffilter_def ntpath_normcase_def lower_char_def char_of_def bit_0
      join_def splitdrive_def is_sep_def Let_def)

text \<open>
  Claim C10, amended: \<^verbatim>\<open>search_file\<close> does not depend on its \<^verbatim>\<open>filename\<close>
  argument. It matches only files whose name equals \<^verbatim>\<open>git.exe\<close> in the comparison
  \<^verbatim>\<open>fnmatch\<close> makes, that is after \<^verbatim>\<open>os.path.normcase\<close> (the name \<^verbatim>\<open>git.exe\<close>
  itself where names are compared as they are, any letter case on Windows). It returns
  the last path assigned in the walk, that is the matching file of the last walked
  directory that has one, not the first, and \<^verbatim>\<open>None\<close> when no walked directory has such
  a file or no argument is a directory.
\<close>

theorem search_file_ignores_filename:
  "search_file isdir walk normcase filename dirs = search_file isdir walk normcase other dirs \<and>
   (normcase [] \<noteq> normcase ''git.exe'' \<longrightarrow>
      search_file isdir walk normcase filename dirs =
        (if git_exe_hits isdir walk normcase dirs = [] then None
         else Some (last (git_exe_hits isdir walk normcase dirs)))) \<and>
   (normcase [] \<noteq> normcase ''git.exe'' \<and> search_file isdir walk normcase filename dirs = Some m
      \<longrightarrow> (\<exists>path\<in>set dirs. isdir path \<and>
            (\<exists>(walk_root, dirnames, filenames)\<in>set (walk path).
               \<exists>n\<in>set filenames. normcase n = normcase ''git.exe'' \<and> m = join walk_root n))) \<and>
   (search_file isdir walk (\<lambda>n. n) filename dirs = Some m
      \<longrightarrow> (\<exists>path\<in>set dirs. isdir path \<and>
            (\<exists>(walk_root, dirnames, filenames)\<in>set (walk path).
               ''git.exe'' \<in> set filenames \<and> m = join walk_root ''git.exe''))) \<and>
   ((\<forall>path\<in>set dirs. \<not> isdir path) \<longrightarrow>
      search_file isdir walk normcase filename dirs = None) \<and>
   ((\<forall>path\<in>set dirs. isdir path \<longrightarrow>
        (\<forall>(walk_root, dirnames, filenames)\<in>set (walk path).
            \<forall>n\<in>set filenames. normcase n \<noteq> normcase ''git.exe'')) \<longrightarrow>
      search_file isdir walk normcase filename dirs = None)"
proof (intro conjI impI)
  show "search_file isdir walk normcase filename dirs = search_file isdir walk normcase other dirs"
    by (simp add: search_file_def)
next
  assume "normcase [] \<noteq> normcase ''git.exe''"
  then show "search_file isdir walk normcase filename dirs =
      (if git_exe_hits isdir walk normcase dirs = [] then None
       else Some (last (git_exe_hits isdir walk normcase dirs)))"
    by (simp add: search_file_def search_dirs_hits last_hit_def)
next
  assume a: "normcase [] \<noteq> normcase ''git.exe'' \<and>
    search_file isdir walk normcase filename dirs = Some m"
  then have ne: "normcase [] \<noteq> normcase ''git.exe''" by blast
  from a have "last_hit (git_exe_hits isdir walk normcase dirs) None = Some m"
    by (simp add: search_file_def search_dirs_hits [OF ne])
  then have "m \<in> set (git_exe_hits isdir walk normcase dirs)"
    by (auto simp: last_hit_def split: if_splits)
  then show "\<exists>path\<in>set dirs. isdir path \<and>
      (\<exists>(walk_root, dirnames, filenames)\<in>set (walk path).
         \<exists>n\<in>set filenames. normcase n = normcase ''git.exe'' \<and> m = join walk_root n)"
    by (rule git_exe_hits_origin)
next
  assume a: "search_file isdir walk (\<lambda>n. n) filename dirs = Some m"
  have ne: "(\<lambda>n. n) ([]::string) \<noteq> (\<lambda>n. n) ''git.exe''" by simp
  from a have "last_hit (git_exe_hits isdir walk (\<lambda>n. n) dirs) None = Some m"
    by (simp add: search_file_def search_dirs_hits [OF ne])
  then have "m \<in> set (git_exe_hits isdir walk (\<lambda>n. n) dirs)"
    by (auto simp: last_hit_def split: if_splits)
  from git_exe_hits_origin [OF this]
  show "\<exists>path\<in>set dirs. isdir path \<and>
      (\<exists>(walk_root, dirnames, filenames)\<in>set (walk path).
         ''git.exe'' \<in> set filenames \<and> m = join walk_root ''git.exe'')"
    by fastforce
next
  assume "\<forall>path\<in>set dirs. \<not> isdir path"
  then show "search_file isdir walk normcase filename dirs = None"
    unfolding search_file_def by (intro search_dirs_nothing) simp
next
  assume "\<forall>path\<in>set dirs. isdir path \<longrightarrow>
      (\<forall>(walk_root, dirnames, filenames)\<in>set (walk path).
          \<forall>n\<in>set filenames. normcase n \<noteq> normcase ''git.exe'')"
  then show "search_file isdir walk normcase filename dirs = None"
    unfolding search_file_def by (rule search_dirs_nothing)
qed

theorem search_file_ignores_filename_witness:
  "search_file (\<lambda>p. p = progs) walk_progs (\<lambda>n. n) ''svn.exe'' [''D:'' @ [BSLASH] @ ''none'', progs] =
     Some (progs @ [BSLASH] @ ''Old'' @ [BSLASH] @ ''git.exe'') \<and>
   search_file (\<lambda>p. p = progs) walk_progs (\<lambda>n. n) ''svn.exe'' [''D:'' @ [BSLASH] @ ''none''] = None \<and>
   search_file (\<lambda>p. p = progs) walk_upper ntpath_normcase ''svn.exe'' [progs] =
     Some (progs @ [BSLASH] @ ''Git'' @ [BSLASH] @ ''GIT.EXE'')"
proof -
  have ne: "(\<lambda>n. n) ([]::string) \<noteq> (\<lambda>n. n) ''git.exe''" by simp
  have a: "search_file (\<lambda>p. p = progs) walk_progs (\<lambda>n. n) ''svn.exe''
      [''D:'' @ [BSLASH] @ ''none'', progs] =
      (if git_exe_hits (\<lambda>p. p = progs) walk_progs (\<lambda>n. n) [''D:'' @ [BSLASH] @ ''none'', progs] = []
       then None
       else Some (last (git_exe_hits (\<lambda>p. p = progs) walk_progs (\<lambda>n. n)
                          [''D:'' @ [BSLASH] @ ''none'', progs])))"
    using search_file_ignores_filename [of "\<lambda>p. p = progs" walk_progs "\<lambda>n. n" "''svn.exe''"
        "[''D:'' @ [BSLASH] @ ''none'', progs]" "[]" "[]"] ne
    by blast
  have h: "git_exe_hits (\<lambda>p. p = progs) walk_progs (\<lambda>n. n) [''D:'' @ [BSLASH] @ ''none'', progs] =
      [progs @ [BSLASH] @ ''Git'' @ [BSLASH] @ ''git.exe'',
       progs @ [BSLASH] @ ''Old'' @ [BSLASH] @ ''git.exe'']"
    by (simp add: git_exe_hits_def ffilter_def join_def splitdrive_def is_sep_def)
  have nodir: "\<forall>path\<in>set [''D:'' @ [BSLASH] @ ''none'']. \<not> path = progs" by simp
  have b: "search_file (\<lambda>p. p = progs) walk_progs (\<lambda>n. n) ''svn.exe''
      [''D:'' @ [BSLASH] @ ''none''] = None"
    using search_file_ignores_filename [of "\<lambda>p. p = progs" walk_progs "\<lambda>n. n" "''svn.exe''"
        "[''D:'' @ [BSLASH] @ ''none'']" "[]" "[]"] nodir
    by blast
  have ne_nt: "ntpath_normcase [] \<noteq> ntpath_normcase ''git.exe''"
    by (simp add: ntpath_normcase_def)
  have c: "search_file (\<lambda>p. p = progs) walk_upper ntpath_normcase ''svn.exe'' [progs] =
      (if git_exe_hits (\<lambda>p. p = progs) walk_upper ntpath_normcase [progs] = [] then None
       else Some (last (git_exe_hits (\<lambda>p. p = progs) walk_upper ntpath_normcase [progs])))"
    using search_file_ignores_filename [of "\<lambda>p. p = progs" walk_upper ntpath_normcase
        "''svn.exe''" "[progs]" "[]" "[]"] ne_nt
    by blast
  have h_nt: "git_exe_hits (\<lambda>p. p = progs) walk_upper ntpath_normcase [progs] =
      [progs @ [BSLASH] @ ''Git'' @ [BSLASH] @ ''GIT.EXE'']"
    by (simp add: git_exe_hits_def ffilter_def ntpath_normcase_def lower_char_def char_of_def
        bit_0 join_def splitdrive_def is_sep_def)
  have ab: "search_file (\<lambda>p. p = progs) walk_progs (\<lambda>n. n) ''svn.exe''
        [''D:'' @ [BSLASH] @ ''none'', progs] =
        Some (progs @ [BSLASH] @ ''Old'' @ [BSLASH] @ ''git.exe'') \<and>
      search_file (\<lambda>p. p = progs) walk_progs (\<lambda>n. n) ''svn.exe''
        [''D:'' @ [BSLASH] @ ''none''] = None"
    using a b unfolding h by simp
  have c': "search_file (\<lambda>p. p = progs) walk_upper ntpath_normcase ''svn.exe'' [progs] =
      Some (progs @ [BSLASH] @ ''Git'' @ [BSLASH] @ ''GIT.EXE'')"
    using c unfolding h_nt by simp
  from ab c' show ?thesis by blast
qed

end
